theory Spec2Isabelle
  imports Main
begin

section \<open>Text\<close>

text \<open>
  A Python \<open>str\<close> is a sequence of Unicode code points. Most literals of the scripts are
  Korean, so a character is its code point (a natural number) and a string is a list of
  them. ASCII literals are written with \<open>asc\<close>.
\<close>

type_synonym ustr = "nat list"

definition asc :: "string \<Rightarrow> ustr" where
  "asc s = map of_char s"

text \<open>The two letters of a clause marker and the line feed.\<close>

definition JE :: nat where "JE = 0xC81C"
definition JO :: nat where "JO = 0xC870"
definition NL :: nat where "NL = 0xA"

text \<open>
  \<open>\d\<close> in a \<open>str\<close> pattern is the Unicode category Nd (\<open>str.isdecimal\<close>); the table is
  that of Unicode 14.0 (CPython 3.11). The theorems below only use that neither letter of
  the marker nor the line feed is in it.
\<close>

definition nd_ranges :: "(nat \<times> nat) list" where
  "nd_ranges =
    [(0x30, 0x39), (0x660, 0x669), (0x6F0, 0x6F9), (0x7C0, 0x7C9), (0x966, 0x96F),
     (0x9E6, 0x9EF), (0xA66, 0xA6F), (0xAE6, 0xAEF), (0xB66, 0xB6F), (0xBE6, 0xBEF),
     (0xC66, 0xC6F), (0xCE6, 0xCEF), (0xD66, 0xD6F), (0xDE6, 0xDEF), (0xE50, 0xE59),
     (0xED0, 0xED9), (0xF20, 0xF29), (0x1040, 0x1049), (0x1090, 0x1099), (0x17E0, 0x17E9),
     (0x1810, 0x1819), (0x1946, 0x194F), (0x19D0, 0x19D9), (0x1A80, 0x1A89),
     (0x1A90, 0x1A99), (0x1B50, 0x1B59), (0x1BB0, 0x1BB9), (0x1C40, 0x1C49),
     (0x1C50, 0x1C59), (0xA620, 0xA629), (0xA8D0, 0xA8D9), (0xA900, 0xA909),
     (0xA9D0, 0xA9D9), (0xA9F0, 0xA9F9), (0xAA50, 0xAA59), (0xABF0, 0xABF9),
     (0xFF10, 0xFF19), (0x104A0, 0x104A9), (0x10D30, 0x10D39), (0x11066, 0x1106F),
     (0x110F0, 0x110F9), (0x11136, 0x1113F), (0x111D0, 0x111D9), (0x112F0, 0x112F9),
     (0x11450, 0x11459), (0x114D0, 0x114D9), (0x11650, 0x11659), (0x116C0, 0x116C9),
     (0x11730, 0x11739), (0x118E0, 0x118E9), (0x11950, 0x11959), (0x11C50, 0x11C59),
     (0x11D50, 0x11D59), (0x11DA0, 0x11DA9), (0x16A60, 0x16A69), (0x16AC0, 0x16AC9),
     (0x16B50, 0x16B59), (0x1D7CE, 0x1D7FF), (0x1E140, 0x1E149), (0x1E2F0, 0x1E2F9),
     (0x1E950, 0x1E959), (0x1FBF0, 0x1FBF9)]"

definition is_decimal :: "nat \<Rightarrow> bool" where
  "is_decimal c = list_ex (\<lambda>(lo, hi). lo \<le> c \<and> c \<le> hi) nd_ranges"

text \<open>The characters \<open>str.strip()\<close> removes: those with \<open>str.isspace\<close>.\<close>

definition is_space :: "nat \<Rightarrow> bool" where
  "is_space c \<longleftrightarrow>
     (0x9 \<le> c \<and> c \<le> 0xD) \<or> (0x1C \<le> c \<and> c \<le> 0x20) \<or> c = 0x85 \<or> c = 0xA0 \<or>
     c = 0x1680 \<or> (0x2000 \<le> c \<and> c \<le> 0x200A) \<or> c = 0x2028 \<or> c = 0x2029 \<or>
     c = 0x202F \<or> c = 0x205F \<or> c = 0x3000"

definition strip :: "ustr \<Rightarrow> ustr" where
  "strip s = rev (dropWhile is_space (rev (dropWhile is_space s)))"

text \<open>\<open>s.split(sep)\<close> for a one-character separator: never an empty list.\<close>

fun split_on :: "nat \<Rightarrow> ustr \<Rightarrow> ustr list" where
  "split_on sep [] = [[]]"
| "split_on sep (c # s) =
     (if c = sep then [] # split_on sep s
      else (case split_on sep s of
              [] \<Rightarrow> [[c]]
            | w # ws \<Rightarrow> (c # w) # ws))"

text \<open>\<open>str(n)\<close> of a non-negative integer, as the f-strings of the scripts print counts.\<close>

fun str_nat :: "nat \<Rightarrow> ustr" where
  "str_nat n = (if n < 10 then [0x30 + n] else str_nat (n div 10) @ [0x30 + n mod 10])"

declare str_nat.simps [simp del]

section \<open>The regular expressions of the law segmentation\<close>

text \<open>
  The two patterns of the database builder use literals, \<open>\d+\<close>, \<open>.*?\<close> under
  \<open>re.DOTALL\<close>, one capture group, alternation, a lookahead and \<open>\Z\<close>. The matcher is the
  backtracking one of \<open>re\<close> in continuation-passing style: the continuation is the rest of
  the pattern, and a repetition that fails later gives back (greedy) or takes (lazy) one
  more character. None of these constructs looks at the text before the position, so a
  position is the remaining text.
\<close>

datatype cls = Lit nat | Digit | Any

datatype rx =
    One cls
  | Plus cls
  | LazyStar cls
  | Seq rx rx
  | Alt rx rx
  | Group rx
  | Ahead rx
  | EndZ

fun cmatch :: "cls \<Rightarrow> nat \<Rightarrow> bool" where
  "cmatch (Lit a) c = (c = a)"
| "cmatch Digit c = is_decimal c"
| "cmatch Any c = True"

text \<open>The state of a match: the remaining text and the text of group 1, if set.\<close>

type_synonym cap = "ustr option"
type_synonym mres = "(ustr \<times> cap) option"
type_synonym kont = "ustr \<Rightarrow> cap \<Rightarrow> mres"

fun greedy :: "cls \<Rightarrow> ustr \<Rightarrow> cap \<Rightarrow> kont \<Rightarrow> mres" where
  "greedy cl [] g k = k [] g"
| "greedy cl (c # s) g k =
     (if cmatch cl c
      then (case greedy cl s g k of Some r \<Rightarrow> Some r | None \<Rightarrow> k (c # s) g)
      else k (c # s) g)"

fun lazy :: "cls \<Rightarrow> ustr \<Rightarrow> cap \<Rightarrow> kont \<Rightarrow> mres" where
  "lazy cl [] g k = k [] g"
| "lazy cl (c # s) g k =
     (case k (c # s) g of
        Some r \<Rightarrow> Some r
      | None \<Rightarrow> if cmatch cl c then lazy cl s g k else None)"

primrec rmatch :: "rx \<Rightarrow> ustr \<Rightarrow> cap \<Rightarrow> kont \<Rightarrow> mres" where
  "rmatch (One cl) = (\<lambda>s g k.
     case s of [] \<Rightarrow> None | c # s' \<Rightarrow> if cmatch cl c then k s' g else None)"
| "rmatch (Plus cl) = (\<lambda>s g k.
     case s of [] \<Rightarrow> None | c # s' \<Rightarrow> if cmatch cl c then greedy cl s' g k else None)"
| "rmatch (LazyStar cl) = (\<lambda>s g k. lazy cl s g k)"
| "rmatch (Seq a b) = (\<lambda>s g k. rmatch a s g (\<lambda>s' g'. rmatch b s' g' k))"
| "rmatch (Alt a b) = (\<lambda>s g k.
     case rmatch a s g k of Some r \<Rightarrow> Some r | None \<Rightarrow> rmatch b s g k)"
| "rmatch (Group a) = (\<lambda>s g k.
     rmatch a s g (\<lambda>s' g'. k s' (Some (take (length s - length s') s))))"
| "rmatch (Ahead a) = (\<lambda>s g k.
     case rmatch a s g (\<lambda>s' g'. Some (s', g')) of
       Some (s', g') \<Rightarrow> k s g'
     | None \<Rightarrow> None)"
| "rmatch EndZ = (\<lambda>s g k. if s = [] then k s g else None)"

text \<open>A match anchored at the start of \<open>s\<close>: the text after it and group 1.\<close>

definition re_match :: "rx \<Rightarrow> ustr \<Rightarrow> mres" where
  "re_match r s = rmatch r s None (\<lambda>s' g. Some (s', g))"

text \<open>
  \<open>re.search\<close>: the leftmost position with a match. \<open>None\<close> is Python's \<open>None\<close>; the value
  is \<open>group(1)\<close> of the match object, itself \<open>None\<close> for a group that took no part.
\<close>

fun re_search :: "rx \<Rightarrow> ustr \<Rightarrow> cap option" where
  "re_search r [] = map_option snd (re_match r [])"
| "re_search r (c # s) =
     (case re_match r (c # s) of
        Some (s', g) \<Rightarrow> Some g
      | None \<Rightarrow> re_search r s)"

text \<open>
  \<open>re.findall\<close> for a pattern with one group: the text of group 1 of every match, scanning
  from the end of the previous match. After an empty match the scan moves one character
  on; the patterns here never match the empty string (\<open>re_match_pattern_shorter\<close>).
\<close>

definition group_text :: "cap \<Rightarrow> ustr" where
  "group_text g = (case g of None \<Rightarrow> [] | Some t \<Rightarrow> t)"

function findall :: "rx \<Rightarrow> ustr \<Rightarrow> ustr list" where
  "findall r s =
     (case re_match r s of
        None \<Rightarrow> (case s of [] \<Rightarrow> [] | c # s' \<Rightarrow> findall r s')
      | Some (rest, g) \<Rightarrow>
          group_text g #
            (if length rest < length s then findall r rest
             else (case s of [] \<Rightarrow> [] | c # s' \<Rightarrow> findall r s')))"
  by pat_completeness auto
termination
  by (relation "measure (\<lambda>(r, s). length s)") auto

declare findall.simps [simp del]

text \<open>The clause marker: \<open>JE\d+JO\<close>, with the letters \<open>JE\<close> (U+C81C) and \<open>JO\<close> (U+C870).\<close>

definition marker :: rx where
  "marker = Seq (One (Lit JE)) (Seq (Plus Digit) (One (Lit JO)))"

text \<open>\<open>(JE\d+JO.*?)(?=JE\d+JO|\Z)\<close> with \<open>re.DOTALL\<close>, the pattern of line 73.\<close>

definition pattern :: rx where
  "pattern = Seq (Group (Seq marker (LazyStar Any))) (Ahead (Alt marker EndZ))"

text \<open>\<open>JE(\d+)JO\<close>, searched in the header line (line 79).\<close>

definition number_pattern :: rx where
  "number_pattern = Seq (One (Lit JE)) (Seq (Group (Plus Digit)) (One (Lit JO)))"

section \<open>Documents\<close>

text \<open>
  A langchain \<open>Document\<close>: a text and a metadata dictionary. A metadata value is a string,
  an integer, Python's \<open>None\<close>, or a value \<open>'v\<close> taken unchanged from a JSON record. A
  dictionary is a map; \<open>d.get(k, dflt)\<close> is \<open>get\<close>.
\<close>

datatype 'v mval = MStr ustr | MInt int | MNone | MRaw 'v

record 'v document =
  page_content :: ustr
  metadata :: "ustr \<rightharpoonup> 'v mval"

definition get :: "('k \<rightharpoonup> 'a) \<Rightarrow> 'k \<Rightarrow> 'a \<Rightarrow> 'a" where
  "get d k dflt = (case d k of None \<Rightarrow> dflt | Some v \<Rightarrow> v)"

text \<open>\<open>sep.join(parts)\<close>.\<close>

fun join :: "ustr \<Rightarrow> ustr list \<Rightarrow> ustr" where
  "join sep [] = []"
| "join sep [x] = x"
| "join sep (x # y # ys) = x @ sep @ join sep (y # ys)"

section \<open>Law documents\<close>

definition law_source :: ustr where
  "law_source = [0xC0B0, 0xC5C5, 0xC548, 0xC804, 0xBCF4, 0xAC74, 0xAE30, 0xC900]"

text \<open>
  The body of the loop over the matches (lines 78 to 88 of the database builder). The
  \<open>else ""\<close> branch of \<open>law_number\<close> is the case \<open>None\<close> of the search.
\<close>

definition law_doc :: "ustr \<Rightarrow> 'v document" where
  "law_doc m =
     (let header_line = strip (hd (split_on NL m));
          law_number = re_search number_pattern header_line;
          law_title = header_line
      in \<lparr>page_content = strip m,
          metadata =
            [asc ''type'' \<mapsto> MStr (asc ''law''),
             asc ''law_number'' \<mapsto>
               (case law_number of
                  Some (Some digits) \<Rightarrow> MStr digits
                | Some None \<Rightarrow> MNone
                | None \<Rightarrow> MStr []),
             asc ''title'' \<mapsto> MStr law_title,
             asc ''source'' \<mapsto> MStr law_source]\<rparr>)"

definition law_docs :: "ustr \<Rightarrow> 'v document list" where
  "law_docs full_text = map law_doc (findall pattern full_text)"

section \<open>Record loader\<close>

text \<open>
  A JSON record is a dictionary from field names to values of some type \<open>'v\<close>. An
  f-string \<open>f"...{case['k']}..."\<close> is evaluated from left to right: a literal part is
  copied, a field part looks the key up, raising \<open>KeyError\<close> when it is absent, and
  formats the value with the built-in \<open>format\<close>, here the parameter \<open>fmt\<close> (for a value
  that is a \<open>str\<close>, the string itself).
\<close>

datatype error = KeyError ustr | Raised ustr

datatype part = Text ustr | Field ustr

fun fstring :: "('v \<Rightarrow> ustr) \<Rightarrow> part list \<Rightarrow> (ustr \<rightharpoonup> 'v) \<Rightarrow> error + ustr" where
  "fstring fmt [] r = Inr []"
| "fstring fmt (Text t # ps) r =
     (case fstring fmt ps r of Inl e \<Rightarrow> Inl e | Inr s \<Rightarrow> Inr (t @ s))"
| "fstring fmt (Field k # ps) r =
     (case r k of
        None \<Rightarrow> Inl (KeyError k)
      | Some v \<Rightarrow> (case fstring fmt ps r of Inl e \<Rightarrow> Inl e | Inr s \<Rightarrow> Inr (fmt v @ s)))"

text \<open>
  The content f-strings are one line per field: the label, the field, and a line feed
  after every line but the last.
\<close>

fun template :: "(ustr \<times> ustr) list \<Rightarrow> part list" where
  "template [] = []"
| "template [(label, key)] = [Text label, Field key]"
| "template ((label, key) # f # fs) = [Text label, Field key, Text [NL]] @ template (f # fs)"

text \<open>Lines 27 to 38: the labels and keys of an accident case.\<close>

definition accident_fields :: "(ustr \<times> ustr) list" where
  "accident_fields =
    [([0xC81C, 0xBAA9, 0x3A, 0x20], asc ''title''),
     ([0xBC1C, 0xC0DD, 0xC77C, 0xC790, 0x3A, 0x20], asc ''date''),
     ([0xBC1C, 0xC0DD, 0xC7A5, 0xC18C, 0x3A, 0x20], asc ''location''),
     ([0xC5C5, 0xC885, 0x3A, 0x20], asc ''industry''),
     ([0xC791, 0xC5C5, 0xC720, 0xD615, 0x3A, 0x20], asc ''work_type''),
     ([0xC7AC, 0xD574, 0xD615, 0xD0DC, 0x3A, 0x20], asc ''accident_type''),
     ([0xD53C, 0xD574, 0xC815, 0xB3C4, 0x3A, 0x20], asc ''damage''),
     ([0xC0AC, 0xACE0, 0xAC1C, 0xC694, 0x3A, 0x20], asc ''summary''),
     ([0xC9C1, 0xC811, 0xC6D0, 0xC778, 0x3A, 0x20], asc ''direct_cause''),
     ([0xADFC, 0xBCF8, 0xC6D0, 0xC778, 0x3A, 0x20], asc ''root_cause''),
     ([0xC704, 0xD5D8, 0xC694, 0xC778, 0x20, 0xD0A4, 0xC6CC, 0xB4DC, 0x3A, 0x20], asc ''risk_keywords''),
     ([0xC608, 0xBC29, 0xB300, 0xCC45, 0x3A, 0x20], asc ''prevention'')]"

text \<open>Lines 53 to 60: the labels and keys of a training material.\<close>

definition education_fields :: "(ustr \<times> ustr) list" where
  "education_fields =
    [([0xC81C, 0xBAA9, 0x3A, 0x20], asc ''title''),
     ([0xC791, 0xC131, 0xC77C, 0xC790, 0x3A, 0x20], asc ''date''),
     ([0xBC1C, 0xAC04, 0xBC88, 0xD638, 0x3A, 0x20], asc ''doc_number''),
     ([0xC790, 0xB8CC, 0xD615, 0xD0DC, 0x3A, 0x20], asc ''type''),
     ([0xD0A4, 0xC6CC, 0xB4DC, 0x3A, 0x20], asc ''keywords''),
     ([0xB0B4, 0xC6A9, 0x3A, 0x20], asc ''content''),
     (asc ''URL: '', asc ''url''),
     ([0xCCA8, 0xBD80, 0xD30C, 0xC77C, 0x3A, 0x20], asc ''file_url'')]"

text \<open>
  One iteration of a loading loop: the content, then the metadata, whose title is looked
  up again.
\<close>

definition record_doc ::
  "(ustr \<times> ustr) list \<Rightarrow> ustr \<Rightarrow> ('v \<Rightarrow> ustr) \<Rightarrow> (ustr \<rightharpoonup> 'v) \<Rightarrow> error + 'v document" where
  "record_doc fs cat fmt r =
     (case fstring fmt (template fs) r of
        Inl e \<Rightarrow> Inl e
      | Inr content \<Rightarrow>
          (case r (asc ''title'') of
             None \<Rightarrow> Inl (KeyError (asc ''title''))
           | Some t \<Rightarrow>
               Inr \<lparr>page_content = content,
                    metadata = [asc ''type'' \<mapsto> MStr cat, asc ''title'' \<mapsto> MRaw t]\<rparr>))"

definition accident_doc :: "('v \<Rightarrow> ustr) \<Rightarrow> (ustr \<rightharpoonup> 'v) \<Rightarrow> error + 'v document" where
  "accident_doc = record_doc accident_fields (asc ''accident'')"

definition edu_doc :: "('v \<Rightarrow> ustr) \<Rightarrow> (ustr \<rightharpoonup> 'v) \<Rightarrow> error + 'v document" where
  "edu_doc = record_doc education_fields (asc ''education'')"

text \<open>The loop \<open>for case in cases: docs.append(...)\<close>: the first exception ends it.\<close>

fun load_docs :: "('r \<Rightarrow> error + 'd) \<Rightarrow> 'r list \<Rightarrow> error + 'd list" where
  "load_docs f [] = Inr []"
| "load_docs f (r # rs) =
     (case f r of
        Inl e \<Rightarrow> Inl e
      | Inr d \<Rightarrow> (case load_docs f rs of Inl e \<Rightarrow> Inl e | Inr ds \<Rightarrow> Inr (d # ds)))"

section \<open>The database builder script\<close>

text \<open>
  The script calls the file system and four libraries. They are the environment: each
  call returns its value or the exception it raises. \<open>read_json\<close> is \<open>open\<close> followed
  by \<open>json.load\<close>, for a file holding an array of objects; \<open>load_pdf\<close> is
  \<open>PyPDFLoader(path).load()\<close>; \<open>split_documents\<close> is the method of a
  \<open>RecursiveCharacterTextSplitter\<close> built with the given configuration;
  \<open>chroma_from_documents\<close> embeds and stores the documents and \<open>persist\<close> writes the
  store.
\<close>

record splitter_config =
  chunk_size :: nat
  chunk_overlap :: nat
  separators :: "ustr list option"

record 'v environment =
  read_json :: "ustr \<Rightarrow> error + (ustr \<rightharpoonup> 'v) list"
  load_pdf :: "ustr \<Rightarrow> error + 'v document list"
  split_documents :: "splitter_config \<Rightarrow> 'v document list \<Rightarrow> error + 'v document list"
  chroma_from_documents :: "'v document list \<Rightarrow> ustr \<Rightarrow> ustr \<Rightarrow> error + unit"
  persist :: "ustr \<Rightarrow> error + unit"

definition ACCIDENT_JSON :: ustr where "ACCIDENT_JSON = asc ''accident_cases_for_rag.json''"
definition EDUCATION_JSON :: ustr where "EDUCATION_JSON = asc ''education_data.json''"
definition LAW_PDF :: ustr where "LAW_PDF = [0xC0B0, 0xC5C5, 0xC548, 0xC804, 0xBCF4, 0xAC74, 0xAE30, 0xC900] @ asc ''.pdf''"
definition CHROMA_DB_DIR :: ustr where "CHROMA_DB_DIR = asc ''safety_rag_db''"

definition builder_config :: splitter_config where
  "builder_config = \<lparr>chunk_size = 1000, chunk_overlap = 100, separators = None\<rparr>"

text \<open>
  How a run of a script ends: it reaches its last line, it calls \<open>sys.exit\<close> with a
  status, or an exception that nobody catches aborts it. The lines printed so far are the
  second component of a run.
\<close>

datatype outcome = Completed | Exit nat | Aborted error

type_synonym run = "outcome \<times> ustr list"

definition info_accident :: "nat \<Rightarrow> ustr" where
  "info_accident n = [0x5B, 0x49, 0x4E, 0x46, 0x4F, 0x5D, 0x20, 0xC0AC, 0xACE0, 0xC0AC, 0xB840, 0x20, 0xB85C, 0xB4DC, 0x20, 0xC644, 0xB8CC, 0x3A, 0x20] @ str_nat n @ [0xAC74]"

definition info_education :: "nat \<Rightarrow> ustr" where
  "info_education n = [0x5B, 0x49, 0x4E, 0x46, 0x4F, 0x5D, 0x20, 0xAD50, 0xC721, 0xC790, 0xB8CC, 0x20, 0xB85C, 0xB4DC, 0x20, 0xC644, 0xB8CC, 0x3A, 0x20] @ str_nat n @ [0xAC74]"

definition info_law :: "nat \<Rightarrow> ustr" where
  "info_law n = [0x5B, 0x49, 0x4E, 0x46, 0x4F, 0x5D, 0x20, 0xBC95, 0xB839, 0x20, 0xB85C, 0xB4DC, 0x20, 0xC644, 0xB8CC, 0x3A, 0x20] @ str_nat n @ [0xC870]"

definition info_chunks :: "nat \<Rightarrow> ustr" where
  "info_chunks n = [0x5B, 0x49, 0x4E, 0x46, 0x4F, 0x5D, 0x20, 0xC804, 0xCCB4, 0x20, 0xBB38, 0xC11C, 0x20, 0xCCAD, 0xD06C, 0x20, 0xC218, 0x3A, 0x20] @ str_nat n"

definition info_chroma :: ustr where
  "info_chroma = [0x5B, 0x49, 0x4E, 0x46, 0x4F, 0x5D, 0x20, 0x43, 0x68, 0x72, 0x6F, 0x6D, 0x61, 0x44, 0x42, 0x20, 0xAD6C, 0xCD95, 0x20, 0xC644, 0xB8CC, 0x20, 0x2192, 0x20] @ CHROMA_DB_DIR"

text \<open>Sections 5 and 6 of the script: chunking and the vector store.\<close>

definition build_index ::
  "'v environment \<Rightarrow> 'v document list \<Rightarrow> 'v document list \<Rightarrow> 'v document list \<Rightarrow>
   ustr list \<Rightarrow> run" where
  "build_index env accident_docs edu_docs law_documents out =
     (case split_documents env builder_config accident_docs of
        Inl e \<Rightarrow> (Aborted e, out)
      | Inr accident_chunks \<Rightarrow>
     (case split_documents env builder_config edu_docs of
        Inl e \<Rightarrow> (Aborted e, out)
      | Inr edu_chunks \<Rightarrow>
     (case split_documents env builder_config law_documents of
        Inl e \<Rightarrow> (Aborted e, out)
      | Inr law_chunks \<Rightarrow>
     (let all_docs = accident_chunks @ edu_chunks @ law_chunks;
          out' = out @ [info_chunks (length all_docs)]
      in case chroma_from_documents env all_docs (asc ''text-embedding-3-small'') CHROMA_DB_DIR of
           Inl e \<Rightarrow> (Aborted e, out')
         | Inr u \<Rightarrow>
             (case persist env CHROMA_DB_DIR of
                Inl e \<Rightarrow> (Aborted e, out')
              | Inr u' \<Rightarrow> (Completed, out' @ [info_chroma]))))))"

text \<open>Section 4: the law PDF, its pages joined by line feeds, and the segmentation.\<close>

definition load_law :: "'v document list \<Rightarrow> 'v document list \<times> ustr" where
  "load_law documents =
     (let full_text = join [NL] (map page_content documents);
          law_documents = law_docs full_text
      in (law_documents, info_law (length law_documents)))"

text \<open>The script, from its first line.\<close>

definition build_safety_rag_db :: "'v environment \<Rightarrow> ('v \<Rightarrow> ustr) \<Rightarrow> run" where
  "build_safety_rag_db env fmt =
     (case read_json env ACCIDENT_JSON of
        Inl e \<Rightarrow> (Aborted e, [])
      | Inr accident_cases \<Rightarrow>
     (case load_docs (accident_doc fmt) accident_cases of
        Inl e \<Rightarrow> (Aborted e, [])
      | Inr accident_docs \<Rightarrow>
     (let out1 = [info_accident (length accident_docs)]
      in case read_json env EDUCATION_JSON of
        Inl e \<Rightarrow> (Aborted e, out1)
      | Inr education_data \<Rightarrow>
     (case load_docs (edu_doc fmt) education_data of
        Inl e \<Rightarrow> (Aborted e, out1)
      | Inr edu_docs \<Rightarrow>
     (let out2 = out1 @ [info_education (length edu_docs)]
      in case load_pdf env LAW_PDF of
        Inl e \<Rightarrow> (Aborted e, out2)
      | Inr documents \<Rightarrow>
          (case load_law documents of
             (law_documents, line) \<Rightarrow>
               build_index env accident_docs edu_docs law_documents (out2 @ [line])))))))"

section \<open>The chunking script\<close>

text \<open>
  \<open>chunk_pdf\<close> wraps everything in \<open>try\<close> and catches every \<open>Exception\<close>; only the
  message of a caught exception is used, so a failing call of its environment returns
  the message \<open>str(e)\<close>. \<open>dump\<close> is \<open>open(output_path, 'w')\<close> followed by \<open>json.dump\<close>.
\<close>

record 'v chunk =
  chunk_id :: nat
  page_number :: "'v mval"
  chunk_source :: "'v mval"
  content :: ustr
  chunk_title :: ustr
  category :: ustr
  chunk_type :: ustr

record 'v chunk_environment =
  load :: "ustr \<Rightarrow> ustr + 'v document list"
  split :: "splitter_config \<Rightarrow> 'v document list \<Rightarrow> ustr + 'v document list"
  dump :: "ustr \<Rightarrow> 'v chunk list \<Rightarrow> ustr + unit"

definition chunking_config :: splitter_config where
  "chunking_config =
     \<lparr>chunk_size = 800, chunk_overlap = 100,
      separators = Some [[NL, NL], [NL], asc ''. '', asc '' '', []]\<rparr>"

text \<open>The loop over \<open>enumerate(chunked_docs)\<close>, from index \<open>i\<close>.\<close>

fun to_chunks :: "nat \<Rightarrow> 'v document list \<Rightarrow> 'v chunk list" where
  "to_chunks i [] = []"
| "to_chunks i (c # cs) =
     \<lparr>chunk_id = i,
      page_number = get (metadata c) (asc ''page'') (MInt 0),
      chunk_source = get (metadata c) (asc ''source'') (MStr []),
      content = page_content c,
      chunk_title = [0xC0B0, 0xC5C5, 0xC548, 0xC804, 0xBCF4, 0xAC74, 0xAE30, 0xC900, 0xC5D0, 0x20, 0xAD00, 0xD55C, 0x20, 0xADDC, 0xCE59, 0x20, 0x2D, 0x20, 0xCCAD, 0xD06C, 0x20] @ str_nat (i + 1),
      category = [0xC0B0, 0xC5C5, 0xC548, 0xC804, 0xBCF4, 0xAC74, 0xBC95, 0xADDC],
      chunk_type = asc ''regulation''\<rparr> # to_chunks (i + 1) cs"

definition msg_loading :: "ustr \<Rightarrow> ustr" where
  "msg_loading pdf_path = [0x50, 0x44, 0x46, 0x20, 0xD30C, 0xC77C, 0x20, 0xB85C, 0xB4DC, 0x20, 0xC911, 0x3A, 0x20] @ pdf_path"

definition msg_pages :: "nat \<Rightarrow> ustr" where
  "msg_pages n = [0x50, 0x44, 0x46, 0x20, 0xD398, 0xC774, 0xC9C0, 0x20, 0xC218, 0x3A, 0x20] @ str_nat n"

definition msg_total :: "nat \<Rightarrow> ustr" where
  "msg_total n = [0xCD1D, 0x20, 0xCCAD, 0xD06C, 0x20, 0xAC1C, 0xC218, 0x3A, 0x20] @ str_nat n"

definition msg_saved :: "ustr \<Rightarrow> ustr" where
  "msg_saved output_path = [0xCCAD, 0xD0B9, 0x20, 0xC644, 0xB8CC, 0x3A, 0x20] @ output_path"

definition msg_created :: "nat \<Rightarrow> ustr" where
  "msg_created n = [0xCD1D, 0x20] @ str_nat n @ [0xAC1C, 0x20, 0xCCAD, 0xD06C, 0x20, 0xC0DD, 0xC131]"

definition msg_error :: "ustr \<Rightarrow> ustr" where
  "msg_error e = [0x50, 0x44, 0x46, 0x20, 0xCCAD, 0xD0B9, 0x20, 0xC624, 0xB958, 0x3A, 0x20] @ e"

definition msg_usage :: ustr where
  "msg_usage = [0xC0AC, 0xC6A9, 0xBC95, 0x3A, 0x20, 0x70, 0x79, 0x74, 0x68, 0x6F, 0x6E, 0x20, 0x70, 0x64, 0x66, 0x5F, 0x63, 0x68, 0x75, 0x6E, 0x6B, 0x69, 0x6E, 0x67, 0x2E, 0x70, 0x79, 0x20, 0x3C, 0x70, 0x64, 0x66, 0x5F, 0x70, 0x61, 0x74, 0x68, 0x3E, 0x20, 0x3C, 0x6F, 0x75, 0x74, 0x70, 0x75, 0x74, 0x5F, 0x6A, 0x73, 0x6F, 0x6E, 0x5F, 0x70, 0x61, 0x74, 0x68, 0x3E]"

definition msg_done :: "nat \<Rightarrow> ustr" where
  "msg_done n = [0xC644, 0xB8CC, 0x3A, 0x20] @ str_nat n @ [0xAC1C, 0x20, 0xCCAD, 0xD06C]"

text \<open>\<open>chunk_pdf\<close>: the value returned and the lines printed.\<close>

definition chunk_pdf :: "'v chunk_environment \<Rightarrow> ustr \<Rightarrow> ustr \<Rightarrow> nat \<times> ustr list" where
  "chunk_pdf env pdf_path output_path =
     (let out0 = [msg_loading pdf_path]
      in case load env pdf_path of
        Inl e \<Rightarrow> (0, out0 @ [msg_error e])
      | Inr documents \<Rightarrow>
     (let out1 = out0 @ [msg_pages (length documents)]
      in case split env chunking_config documents of
        Inl e \<Rightarrow> (0, out1 @ [msg_error e])
      | Inr chunked_docs \<Rightarrow>
     (let out2 = out1 @ [msg_total (length chunked_docs)];
          chunks = to_chunks 0 chunked_docs
      in case dump env output_path chunks of
        Inl e \<Rightarrow> (0, out2 @ [msg_error e])
      | Inr u \<Rightarrow>
          (length chunks, out2 @ [msg_saved output_path, msg_created (length chunks)]))))"

text \<open>The \<open>__main__\<close> block; \<open>argv\<close> is \<open>sys.argv\<close>, the script name first.\<close>

definition main :: "'v chunk_environment \<Rightarrow> ustr list \<Rightarrow> run" where
  "main env argv =
     (if length argv \<noteq> 3 then (Exit 1, [msg_usage])
      else
        (let pdf_path = argv ! 1;
             output_path = argv ! 2
         in case chunk_pdf env pdf_path output_path of
              (chunk_count, out) \<Rightarrow> (Completed, out @ [msg_done chunk_count])))"

section \<open>Auxiliary functions for the proofs\<close>

text \<open>
  What the marker matches, as a plain recursion: \<open>after_marker s\<close> is the text after a
  marker at the start of \<open>s\<close>, and \<open>next_cut s\<close> is the first position from \<open>s\<close> on
  that is the end of the text or the start of a marker. The lemmas \<open>rmatch_marker\<close> and
  \<open>re_match_pattern\<close> relate them to the matcher.
\<close>

fun after_digits :: "ustr \<Rightarrow> ustr option" where
  "after_digits [] = None"
| "after_digits (c # s) =
     (if c = JO then Some s else if is_decimal c then after_digits s else None)"

fun after_marker :: "ustr \<Rightarrow> ustr option" where
  "after_marker (c # d # s) = (if c = JE \<and> is_decimal d then after_digits s else None)"
| "after_marker s = None"

fun next_cut :: "ustr \<Rightarrow> ustr" where
  "next_cut [] = []"
| "next_cut (c # s) = (if after_marker (c # s) \<noteq> None then c # s else next_cut s)"


text \<open>
  What the record loader is to produce, in the words of its contract: one line per field,
  the label followed by the formatted value, the lines joined by line feeds. A record is
  complete for a field list when it has every key; \<open>first_missing\<close> is the first key, in
  field order, that it lacks.
\<close>

definition value_text :: "('v \<Rightarrow> ustr) \<Rightarrow> (ustr \<rightharpoonup> 'v) \<Rightarrow> ustr \<Rightarrow> ustr" where
  "value_text fmt r key = (case r key of None \<Rightarrow> [] | Some v \<Rightarrow> fmt v)"

definition labelled_lines :: "('v \<Rightarrow> ustr) \<Rightarrow> (ustr \<times> ustr) list \<Rightarrow> (ustr \<rightharpoonup> 'v) \<Rightarrow> ustr" where
  "labelled_lines fmt fs r = join [NL] (map (\<lambda>(label, key). label @ value_text fmt r key) fs)"

definition complete :: "(ustr \<times> ustr) list \<Rightarrow> (ustr \<rightharpoonup> 'v) \<Rightarrow> bool" where
  "complete fs r = list_all (\<lambda>key. r key \<noteq> None) (map snd fs)"

definition first_missing :: "(ustr \<times> ustr) list \<Rightarrow> (ustr \<rightharpoonup> 'v) \<Rightarrow> ustr option" where
  "first_missing fs r = find (\<lambda>key. r key = None) (map snd fs)"

text \<open>
  \<open>after_first p t\<close> is the text after the leftmost occurrence of \<open>p\<close> in \<open>t\<close>, and
  \<open>in_order ps t\<close> says that the strings \<open>ps\<close> occur in \<open>t\<close> one after the other, without
  overlap.
\<close>

fun after_first :: "ustr \<Rightarrow> ustr \<Rightarrow> ustr option" where
  "after_first p [] = (if p = [] then Some [] else None)"
| "after_first p (c # t) =
     (if take (length p) (c # t) = p then Some (drop (length p) (c # t)) else after_first p t)"

fun in_order :: "ustr list \<Rightarrow> ustr \<Rightarrow> bool" where
  "in_order [] t = True"
| "in_order (p # ps) t = (case after_first p t of None \<Rightarrow> False | Some t' \<Rightarrow> in_order ps t')"

text \<open>
  Example inputs: a record with every field of both kinds of record, whose values are
  strings, the same record without its date, and an environment whose accident file
  holds the two.
\<close>

definition example_record :: "ustr \<rightharpoonup> ustr" where
  "example_record = map_of
    [(asc ''title'', asc ''Fall from scaffold''), (asc ''date'', asc ''2023-05-01''),
     (asc ''location'', asc ''Busan''), (asc ''industry'', asc ''Construction''),
     (asc ''work_type'', asc ''Painting''), (asc ''accident_type'', asc ''Fall''),
     (asc ''damage'', asc ''1 injured''), (asc ''summary'', asc ''A worker fell.''),
     (asc ''direct_cause'', asc ''No guard rail''), (asc ''root_cause'', asc ''No inspection''),
     (asc ''risk_keywords'', asc ''scaffold, height''), (asc ''prevention'', asc ''Install rails''),
     (asc ''doc_number'', asc ''2023-17''), (asc ''type'', asc ''leaflet''),
     (asc ''keywords'', asc ''scaffold''), (asc ''content'', asc ''Check the rails.''),
     (asc ''url'', asc ''http://example.org/a''), (asc ''file_url'', asc ''http://example.org/a.pdf'')]"

definition example_partial :: "ustr \<rightharpoonup> ustr" where
  "example_partial = example_record(asc ''date'' := None)"

definition example_environment :: "ustr environment" where
  "example_environment =
     \<lparr>read_json = (\<lambda>path. Inr [example_record, example_partial]),
      load_pdf = (\<lambda>path. Inr []),
      split_documents = (\<lambda>config ds. Inr ds),
      chroma_from_documents = (\<lambda>ds model dir. Inr ()),
      persist = (\<lambda>dir. Inr ())\<rparr>"

definition example_environment_edu :: "ustr environment" where
  "example_environment_edu =
     example_environment
       \<lparr>read_json := (\<lambda>path. if path = ACCIDENT_JSON then Inr [example_record]
                                else Inr [example_record, example_partial])\<rparr>"

text \<open>
  An environment in which the file at one path cannot be opened and every other file
  holds the example record or no page, and an environment of the chunking script with one
  PDF of two pages, which the splitter leaves as they are.
\<close>

definition example_missing :: "ustr \<Rightarrow> ustr environment" where
  "example_missing p =
     \<lparr>read_json = (\<lambda>path. if path = p then Inl (Raised (asc ''No such file or directory''))
                             else Inr [example_record]),
      load_pdf = (\<lambda>path. if path = p then Inl (Raised (asc ''No such file or directory''))
                            else Inr []),
      split_documents = (\<lambda>config ds. Inr ds),
      chroma_from_documents = (\<lambda>ds model dir. Inr ()),
      persist = (\<lambda>dir. Inr ())\<rparr>"

definition example_pages :: "unit document list" where
  "example_pages =
     [\<lparr>page_content = asc ''Article 1'',
       metadata = [asc ''source'' \<mapsto> MStr (asc ''law.pdf''), asc ''page'' \<mapsto> MInt 0]\<rparr>,
      \<lparr>page_content = asc ''Article 2'',
       metadata = [asc ''source'' \<mapsto> MStr (asc ''law.pdf''), asc ''page'' \<mapsto> MInt 1]\<rparr>]"

definition example_chunk_environment :: "unit chunk_environment" where
  "example_chunk_environment =
     \<lparr>load = (\<lambda>path. if path = asc ''law.pdf'' then Inr example_pages
                        else Inl (asc ''File path is not a valid file or url'')),
      split = (\<lambda>config ds. Inr ds),
      dump = (\<lambda>path chunks. Inr ())\<rparr>"

section \<open>The matcher on the patterns of the program\<close>

lemma JE_not_decimal: "\<not> is_decimal JE"
  by (simp add: is_decimal_def nd_ranges_def JE_def)

lemma JO_not_decimal: "\<not> is_decimal JO"
  by (simp add: is_decimal_def nd_ranges_def JO_def)

lemma NL_not_decimal: "\<not> is_decimal NL"
  by (simp add: is_decimal_def nd_ranges_def NL_def)

lemma letters_not_space: "\<not> is_space JE" "\<not> is_space JO"
  by (simp_all add: is_space_def JE_def JO_def)

lemma letters_distinct: "JE \<noteq> JO" "JE \<noteq> NL" "JO \<noteq> NL"
  by (simp_all add: JE_def JO_def NL_def)

lemma greedy_digits_jo:
  "greedy Digit s g (\<lambda>s' g'. rmatch (One (Lit JO)) s' (f s' g') k) =
     (case after_digits s of Some t \<Rightarrow> k t (f (JO # t) g) | None \<Rightarrow> None)"
proof (induction s)
  case Nil
  show ?case by simp
next
  case (Cons c s)
  show ?case
  proof (cases "is_decimal c")
    case True
    then have "c \<noteq> JO" using JO_not_decimal by auto
    with True Cons show ?thesis by (simp split: option.splits)
  next
    case False
    then show ?thesis by simp
  qed
qed

lemma greedy_digits_jo_unf:
  "greedy Digit s g
     (\<lambda>s' g'. case s' of [] \<Rightarrow> None
               | c # s'' \<Rightarrow> if cmatch (Lit JO) c then k s'' ((f :: ustr \<Rightarrow> cap \<Rightarrow> cap) s' g') else None) =
     (case after_digits s of Some t \<Rightarrow> k t (f (JO # t) g) | None \<Rightarrow> None)"
  using greedy_digits_jo [of s g f k] by simp

lemma rmatch_marker:
  "rmatch marker s g k = (case after_marker s of Some t \<Rightarrow> k t g | None \<Rightarrow> None)"
proof (cases s rule: after_marker.cases)
  case (1 c d s')
  show ?thesis
    using greedy_digits_jo [of s' g "\<lambda>s' g'. g'" k]
    by (simp add: 1 marker_def)
qed (simp_all add: marker_def split: list.splits)

lemma rmatch_ahead:
  "rmatch (Ahead (Alt marker EndZ)) s g k =
     (if s = [] \<or> after_marker s \<noteq> None then k s g else None)"
  by (cases s) (auto simp: rmatch_marker split: option.splits)

lemma lazy_any_cut:
  "lazy Any s g (\<lambda>s' g'. rmatch (Ahead (Alt marker EndZ)) s' (f s') (\<lambda>s' g'. Some (s', g'))) =
     Some (next_cut s, f (next_cut s))"
  by (induction s) (simp_all add: rmatch_ahead del: after_marker.simps rmatch.simps)

lemma re_match_pattern:
  "re_match pattern s =
     (case after_marker s of
        None \<Rightarrow> None
      | Some t \<Rightarrow> Some (next_cut t, Some (take (length s - length (next_cut t)) s)))"
  unfolding re_match_def pattern_def rmatch.simps(3,4,6)
  by (simp add: rmatch_marker lazy_any_cut del: rmatch.simps)

lemma re_match_marker: "re_match marker s = map_option (\<lambda>t. (t, None)) (after_marker s)"
  by (simp add: re_match_def rmatch_marker split: option.splits)

lemma length_after_digits: "after_digits s = Some t \<Longrightarrow> length t < length s"
  by (induction s) (auto split: if_splits)

lemma length_after_marker: "after_marker s = Some t \<Longrightarrow> length t < length s"
  by (cases s rule: after_marker.cases) (auto split: if_splits dest: length_after_digits)

lemma length_next_cut: "length (next_cut t) \<le> length t"
  by (induction t) (auto simp del: after_marker.simps)

lemma re_match_pattern_shorter:
  "re_match pattern s = Some (rest, g) \<Longrightarrow> length rest < length s"
proof -
  assume "re_match pattern s = Some (rest, g)"
  then obtain t where t: "after_marker s = Some t" and rest: "rest = next_cut t"
    by (auto simp: re_match_pattern split: option.splits)
  from length_after_marker [OF t] length_next_cut [of t] rest show ?thesis by simp
qed

lemma findall_pattern_Nil: "findall pattern [] = []"
  by (simp add: findall.simps re_match_pattern)

lemma findall_pattern_skip:
  "after_marker (c # s) = None \<Longrightarrow> findall pattern (c # s) = findall pattern s"
  by (subst findall.simps) (simp add: re_match_pattern)

lemma findall_pattern_hit:
  "after_marker s = Some t \<Longrightarrow>
     findall pattern s = take (length s - length (next_cut t)) s # findall pattern (next_cut t)"
  using length_next_cut [of t] length_after_marker [of s t]
  by (subst findall.simps) (simp add: re_match_pattern group_text_def)


lemma after_digits_iff:
  "after_digits s = Some t \<longleftrightarrow> (\<exists>ds. list_all is_decimal ds \<and> s = ds @ JO # t)"
proof
  show "after_digits s = Some t \<Longrightarrow> \<exists>ds. list_all is_decimal ds \<and> s = ds @ JO # t"
  proof (induction s)
    case Nil
    then show ?case by simp
  next
    case (Cons c s)
    show ?case
    proof (cases "c = JO")
      case True
      with Cons.prems have "list_all is_decimal [] \<and> c # s = [] @ JO # t" by simp
      then show ?thesis by blast
    next
      case False
      with Cons.prems have c: "is_decimal c" and "after_digits s = Some t"
        by (auto split: if_splits)
      with Cons.IH obtain ds where "list_all is_decimal ds" "s = ds @ JO # t" by blast
      with c have "list_all is_decimal (c # ds) \<and> c # s = (c # ds) @ JO # t" by simp
      then show ?thesis by blast
    qed
  qed
next
  assume "\<exists>ds. list_all is_decimal ds \<and> s = ds @ JO # t"
  then obtain ds where "list_all is_decimal ds" "s = ds @ JO # t" by blast
  then show "after_digits s = Some t"
    using JO_not_decimal by (induction ds arbitrary: s) auto
qed

lemma after_marker_iff:
  "after_marker s = Some t \<longleftrightarrow>
     (\<exists>ds. ds \<noteq> [] \<and> list_all is_decimal ds \<and> s = JE # ds @ JO # t)"
proof
  assume a: "after_marker s = Some t"
  then obtain c d s' where s: "s = c # d # s'"
    by (cases s rule: after_marker.cases) auto
  with a have c: "c = JE" and d: "is_decimal d" and "after_digits s' = Some t"
    by (auto split: if_splits)
  then obtain ds where "list_all is_decimal ds" "s' = ds @ JO # t"
    using after_digits_iff by blast
  with s c d have "d # ds \<noteq> [] \<and> list_all is_decimal (d # ds) \<and> s = JE # (d # ds) @ JO # t"
    by simp
  then show "\<exists>ds. ds \<noteq> [] \<and> list_all is_decimal ds \<and> s = JE # ds @ JO # t" by blast
next
  assume "\<exists>ds. ds \<noteq> [] \<and> list_all is_decimal ds \<and> s = JE # ds @ JO # t"
  then obtain ds where ds: "ds \<noteq> []" "list_all is_decimal ds" and s: "s = JE # ds @ JO # t"
    by blast
  from ds obtain d ds' where d: "ds = d # ds'" by (cases ds) auto
  with ds have "after_digits (ds' @ JO # t) = Some t"
    using after_digits_iff [of "ds' @ JO # t" t] by auto
  with d ds s show "after_marker s = Some t" by simp
qed

lemma after_marker_hd: "after_marker r \<noteq> None \<Longrightarrow> r \<noteq> [] \<and> hd r = JE"
  by (cases r rule: after_marker.cases) (auto split: if_splits)

lemma after_digits_append_None:
  "after_digits x = None \<Longrightarrow> r = [] \<or> hd r = JE \<Longrightarrow> after_digits (x @ r) = None"
proof (induction x)
  case Nil
  then show ?case
    using JE_not_decimal letters_distinct(1) by (cases r) auto
next
  case (Cons c x)
  then show ?case by (auto split: if_splits)
qed

lemma after_marker_append_None:
  assumes "after_marker x = None" and "x \<noteq> []" and "r = [] \<or> hd r = JE"
  shows "after_marker (x @ r) = None"
proof -
  from assms(2) obtain c x' where x: "x = c # x'"
    by (cases x) auto
  show ?thesis
  proof (cases x')
    case Nil
    with x assms(3) show ?thesis
      using JE_not_decimal by (cases r) auto
  next
    case (Cons d s)
    with x assms show ?thesis
      by (auto dest: after_digits_append_None)
  qed
qed

lemma re_search_marker_Nil: "re_search marker [] = None"
  by (simp add: re_match_marker)

lemma re_search_marker_Cons:
  "re_search marker (c # s) = None \<longleftrightarrow> after_marker (c # s) = None \<and> re_search marker s = None"
  by (simp add: re_match_marker split: option.splits del: after_marker.simps)

lemma next_cut_fix: "r = [] \<or> after_marker r \<noteq> None \<Longrightarrow> next_cut r = r"
  by (cases r) (auto simp del: after_marker.simps)

lemma next_cut_append:
  assumes "re_search marker b = None" and "r = [] \<or> after_marker r \<noteq> None"
  shows "next_cut (b @ r) = r"
  using assms(1)
proof (induction b)
  case Nil
  show ?case using assms(2) by (simp add: next_cut_fix)
next
  case (Cons c b)
  from Cons.prems have "after_marker (c # b) = None" and b: "re_search marker b = None"
    using re_search_marker_Cons by blast+
  then have "after_marker ((c # b) @ r) = None"
    using assms(2) after_marker_hd [of r] by (intro after_marker_append_None) auto
  with Cons.IH [OF b] show ?case by (simp del: after_marker.simps)
qed

lemma findall_skip_prefix:
  assumes "re_search marker p = None" and "r = [] \<or> after_marker r \<noteq> None"
  shows "findall pattern (p @ r) = findall pattern r"
  using assms(1)
proof (induction p)
  case Nil
  show ?case by simp
next
  case (Cons c p)
  from Cons.prems have "after_marker (c # p) = None" and p: "re_search marker p = None"
    using re_search_marker_Cons by blast+
  then have "after_marker (c # (p @ r)) = None"
    using assms(2) after_marker_hd [of r] after_marker_append_None [of "c # p" r] by auto
  then have "findall pattern (c # (p @ r)) = findall pattern (p @ r)"
    by (rule findall_pattern_skip)
  with Cons.IH [OF p] show ?case by simp
qed

lemma findall_segment:
  assumes "after_marker m = Some []" and "re_search marker b = None"
    and "r = [] \<or> after_marker r \<noteq> None"
  shows "findall pattern (m @ b @ r) = (m @ b) # findall pattern r"
proof -
  from assms(1) obtain ds where ds: "ds \<noteq> []" "list_all is_decimal ds" and m: "m = JE # ds @ [JO]"
    using after_marker_iff by blast
  then have "after_marker (m @ b @ r) = Some (b @ r)"
    using after_marker_iff [of "m @ b @ r" "b @ r"] by auto
  moreover have "next_cut (b @ r) = r"
    using assms(2,3) by (rule next_cut_append)
  ultimately show ?thesis
    by (simp add: findall_pattern_hit)
qed


lemma split_on_not_Nil: "split_on sep s \<noteq> []"
  by (induction s) (auto split: list.splits)

lemma hd_split_on: "hd (split_on sep s) = takeWhile (\<lambda>c. c \<noteq> sep) s"
  using split_on_not_Nil [of sep] by (induction s) (auto split: list.splits)

lemma decimal_not_NL: "list_all is_decimal ds \<Longrightarrow> \<forall>d\<in>set ds. d \<noteq> NL"
  using NL_not_decimal by (auto simp: list_all_iff)

lemma header_of_clause:
  assumes "list_all is_decimal ds"
  shows "hd (split_on NL (JE # ds @ JO # t)) = JE # ds @ JO # takeWhile (\<lambda>c. c \<noteq> NL) t"
  using decimal_not_NL [OF assms] letters_distinct
  by (simp add: hd_split_on takeWhile_append2 del: split_on.simps)

lemma strip_clause:
  "strip (JE # ds @ JO # v) = JE # ds @ JO # rev (dropWhile is_space (rev v))"
proof -
  have "dropWhile is_space (rev v @ JO # w) = dropWhile is_space (rev v) @ JO # w" for w
    using letters_not_space(2) by (induction "rev v" arbitrary: v) (auto simp: dropWhile_append)
  then show ?thesis
    using letters_not_space(1) by (simp add: strip_def)
qed

lemma rmatch_number_pattern:
  "rmatch number_pattern s g k =
     (case after_marker s of
        Some t \<Rightarrow> k t (Some (take (length s - length t - 2) (tl s)))
      | None \<Rightarrow> None)"
proof (cases s rule: after_marker.cases)
  case (1 c d s')
  show ?thesis
    by (cases "after_digits s'")
      (simp_all add: 1 number_pattern_def
         greedy_digits_jo_unf [where s = s' and g = g and k = k
           and f = "\<lambda>s'' g'. Some (take (length (d # s') - length s'') (d # s'))"])
qed (simp_all add: number_pattern_def split: list.splits)

lemma re_search_number_clause:
  assumes "ds \<noteq> []" and "list_all is_decimal ds"
  shows "re_search number_pattern (JE # ds @ JO # v) = Some (Some ds)"
proof -
  have "after_marker (JE # ds @ JO # v) = Some v"
    using assms after_marker_iff by blast
  then show ?thesis
    by (simp add: re_match_def rmatch_number_pattern del: after_marker.simps)
qed

lemma law_doc_clause:
  assumes "ds \<noteq> []" and "list_all is_decimal ds"
  shows "re_search number_pattern (strip (hd (split_on NL (JE # ds @ JO # t)))) = Some (Some ds)"
    and "metadata (law_doc (JE # ds @ JO # t)) (asc ''law_number'') = Some (MStr ds)"
proof -
  show 1: "re_search number_pattern (strip (hd (split_on NL (JE # ds @ JO # t)))) = Some (Some ds)"
    using assms
    by (simp add: header_of_clause strip_clause re_search_number_clause
          del: split_on.simps re_search.simps)
  show "metadata (law_doc (JE # ds @ JO # t)) (asc ''law_number'') = Some (MStr ds)"
    unfolding law_doc_def Let_def 1 by (simp add: asc_def)
qed

lemma page_content_law_doc: "page_content (law_doc m) = strip m"
  by (simp add: law_doc_def Let_def)

lemma take_clause:
  assumes "after_marker s = Some t" and "length s - length t \<le> n"
  shows "after_marker (take n s) \<noteq> None"
proof -
  from assms(1) obtain ds where ds: "ds \<noteq> []" "list_all is_decimal ds" and s: "s = JE # ds @ JO # t"
    using after_marker_iff by blast
  with assms(2) obtain u where "take n s = JE # ds @ JO # u"
    by (cases n) (auto simp: take_Cons')
  with ds have "after_marker (take n s) = Some u"
    using after_marker_iff by blast
  then show ?thesis by simp
qed

lemma findall_pattern_elems:
  "m \<in> set (findall pattern s) \<Longrightarrow> after_marker m \<noteq> None"
proof (induction "length s" arbitrary: s rule: less_induct)
  case less
  show ?case
  proof (cases s)
    case Nil
    with less.prems show ?thesis by (simp add: findall_pattern_Nil)
  next
    case (Cons c s')
    show ?thesis
    proof (cases "after_marker s")
      case None
      with Cons have "findall pattern s = findall pattern s'"
        using findall_pattern_skip by simp
      with less.prems less.hyps [of s'] Cons show ?thesis by simp
    next
      case (Some t)
      let ?n = "length s - length (next_cut t)"
      from Some have eq: "findall pattern s = take ?n s # findall pattern (next_cut t)"
        by (rule findall_pattern_hit)
      have lt: "length (next_cut t) < length s"
        using length_next_cut [of t] length_after_marker [OF Some] by simp
      from less.prems eq consider "m = take ?n s" | "m \<in> set (findall pattern (next_cut t))"
        by auto
      then show ?thesis
      proof cases
        case 1
        have "length s - length t \<le> ?n"
          using length_next_cut [of t] by simp
        with Some 1 show ?thesis using take_clause by blast
      next
        case 2
        with lt show ?thesis by (rule less.hyps)
      qed
    qed
  qed
qed

section \<open>Properties of the law segmentation\<close>

text \<open>
  C9. A text in which the marker pattern matches nowhere gives no match and so no law
  document; the loading step returns the empty list and prints its usual line, with the
  count 0, and nothing else. Nothing in the step can raise.
\<close>

theorem no_marker_no_documents:
  fixes documents :: "'v document list"
  assumes "re_search marker text = None"
  shows "findall pattern text = [] \<and> law_docs text = ([] :: 'v document list) \<and>
         (join [NL] (map page_content documents) = text \<longrightarrow>
            load_law documents = ([], info_law 0))"
proof -
  have "findall pattern (text @ []) = findall pattern []"
    using assms by (intro findall_skip_prefix) simp_all
  then have "findall pattern text = []"
    by (simp add: findall_pattern_Nil)
  then show ?thesis
    by (simp add: law_docs_def load_law_def)
qed

theorem no_marker_no_documents_witness:
  "re_search marker (asc ''Preamble'' @ [NL] @ asc ''12'') = None \<and>
   findall pattern (asc ''Preamble'' @ [NL] @ asc ''12'') = [] \<and>
   law_docs (asc ''Preamble'' @ [NL] @ asc ''12'') = ([] :: unit document list) \<and>
   load_law [\<lparr>page_content = asc ''Preamble'', metadata = Map.empty\<rparr>,
             \<lparr>page_content = asc ''12'', metadata = Map.empty\<rparr> :: unit document] =
     ([], info_law 0)"
proof -
  have h: "re_search marker (asc ''Preamble'' @ [NL] @ asc ''12'') = None"
    by (simp add: asc_def re_match_def marker_def JE_def JO_def NL_def)
  from no_marker_no_documents [OF h, of
      "[\<lparr>page_content = asc ''Preamble'', metadata = Map.empty\<rparr>,
        \<lparr>page_content = asc ''12'', metadata = Map.empty\<rparr> :: unit document]"] h
  show ?thesis by simp
qed

lemma findall_three_clauses:
  assumes "after_marker m1 = Some []" and "after_marker m2 = Some []"
    and "after_marker m3 = Some []"
    and "re_search marker pre = None" and "re_search marker b1 = None"
    and "re_search marker b2 = None" and "re_search marker b3 = None"
  shows "findall pattern (pre @ m1 @ b1 @ m2 @ b2 @ m3 @ b3) = [m1 @ b1, m2 @ b2, m3 @ b3]"
proof -
  have cont: "after_marker (m @ z) \<noteq> None" if "after_marker m = Some []" for m z
    using that after_marker_iff [of m "[]"] after_marker_iff [of "m @ z" z] by auto
  have "findall pattern (m3 @ b3 @ []) = (m3 @ b3) # findall pattern []"
    using assms(3,7) by (intro findall_segment) simp_all
  then have 3: "findall pattern (m3 @ b3) = [m3 @ b3]"
    by (simp add: findall_pattern_Nil)
  have "findall pattern (m2 @ b2 @ m3 @ b3) = (m2 @ b2) # findall pattern (m3 @ b3)"
    using assms(2,6) cont [OF assms(3)] by (intro findall_segment) simp_all
  with 3 have 2: "findall pattern (m2 @ b2 @ m3 @ b3) = [m2 @ b2, m3 @ b3]"
    by simp
  have "findall pattern (m1 @ b1 @ m2 @ b2 @ m3 @ b3) =
      (m1 @ b1) # findall pattern (m2 @ b2 @ m3 @ b3)"
    using assms(1,5) cont [OF assms(2)] by (intro findall_segment) simp_all
  with 2 have 1: "findall pattern (m1 @ b1 @ m2 @ b2 @ m3 @ b3) = [m1 @ b1, m2 @ b2, m3 @ b3]"
    by simp
  have "findall pattern (pre @ m1 @ b1 @ m2 @ b2 @ m3 @ b3) =
      findall pattern (m1 @ b1 @ m2 @ b2 @ m3 @ b3)"
    using assms(4) cont [OF assms(1)] by (intro findall_skip_prefix) simp_all
  with 1 show ?thesis by simp
qed

lemma digit_markers:
  "after_marker [JE, 0x31, JO] = Some []" "after_marker [JE, 0x32, JO] = Some []"
  "after_marker [JE, 0x33, JO] = Some []"
  by (simp_all add: is_decimal_def nd_ranges_def)

text \<open>
  C1, amended. Let the text be a preamble, then the markers JE 1 JO, JE 2 JO and JE 3 JO
  (the digits are U+0031 to U+0033), each followed by a body, with no marker inside the
  preamble or a body. Then \<open>re.findall\<close> returns exactly three matches: each starts at its
  marker and runs up to, and not including, the next marker, the last one to the end of
  the text; the preamble is dropped. The text of each document is its match with the
  white space at both ends removed.
\<close>

theorem three_markers_three_documents:
  assumes "re_search marker pre = None" and "re_search marker b1 = None"
    and "re_search marker b2 = None" and "re_search marker b3 = None"
  shows "findall pattern (pre @ [JE, 0x31, JO] @ b1 @ [JE, 0x32, JO] @ b2 @ [JE, 0x33, JO] @ b3) =
           [[JE, 0x31, JO] @ b1, [JE, 0x32, JO] @ b2, [JE, 0x33, JO] @ b3] \<and>
         map page_content
           (law_docs (pre @ [JE, 0x31, JO] @ b1 @ [JE, 0x32, JO] @ b2 @ [JE, 0x33, JO] @ b3)) =
           [strip ([JE, 0x31, JO] @ b1), strip ([JE, 0x32, JO] @ b2), strip ([JE, 0x33, JO] @ b3)]"
proof -
  have "findall pattern (pre @ [JE, 0x31, JO] @ b1 @ [JE, 0x32, JO] @ b2 @ [JE, 0x33, JO] @ b3) =
      [[JE, 0x31, JO] @ b1, [JE, 0x32, JO] @ b2, [JE, 0x33, JO] @ b3]"
    using digit_markers assms by (rule findall_three_clauses)
  then show ?thesis
    by (simp add: law_docs_def page_content_law_doc)
qed

theorem three_markers_three_documents_witness:
  "re_search marker (asc ''Intro '') = None \<and> re_search marker (asc '' a'' @ [NL]) = None \<and>
   re_search marker (asc '' b'' @ [NL]) = None \<and> re_search marker (asc '' c'') = None \<and>
   findall pattern
     (asc ''Intro '' @ [JE, 0x31, JO] @ (asc '' a'' @ [NL]) @ [JE, 0x32, JO] @
      (asc '' b'' @ [NL]) @ [JE, 0x33, JO] @ asc '' c'') =
     [[JE, 0x31, JO] @ (asc '' a'' @ [NL]), [JE, 0x32, JO] @ (asc '' b'' @ [NL]),
      [JE, 0x33, JO] @ asc '' c''] \<and>
   map page_content
     (law_docs
        (asc ''Intro '' @ [JE, 0x31, JO] @ (asc '' a'' @ [NL]) @ [JE, 0x32, JO] @
         (asc '' b'' @ [NL]) @ [JE, 0x33, JO] @ asc '' c'') :: unit document list) =
     [strip ([JE, 0x31, JO] @ (asc '' a'' @ [NL])), strip ([JE, 0x32, JO] @ (asc '' b'' @ [NL])),
      strip ([JE, 0x33, JO] @ asc '' c'')]"
proof -
  have h: "re_search marker (asc ''Intro '') = None" "re_search marker (asc '' a'' @ [NL]) = None"
    "re_search marker (asc '' b'' @ [NL]) = None" "re_search marker (asc '' c'') = None"
    by (simp_all add: asc_def re_match_def marker_def JE_def JO_def NL_def)
  from three_markers_three_documents [OF h] h show ?thesis
    by blast
qed

text \<open>
  C1 as stated fails where white space precedes the next marker, as a line feed does in a
  law text: the matches of the text below end with the line feed, the documents do not.
\<close>

theorem documents_are_stripped_counterexample:
  "map page_content
     (law_docs
        ([JE, 0x31, JO] @ (asc '' a'' @ [NL]) @ [JE, 0x32, JO] @ (asc '' b'' @ [NL]) @
         [JE, 0x33, JO] @ asc '' c'') :: unit document list) \<noteq>
     [[JE, 0x31, JO] @ (asc '' a'' @ [NL]), [JE, 0x32, JO] @ (asc '' b'' @ [NL]),
      [JE, 0x33, JO] @ asc '' c'']"
proof -
  have h: "re_search marker [] = None" "re_search marker (asc '' a'' @ [NL]) = None"
    "re_search marker (asc '' b'' @ [NL]) = None" "re_search marker (asc '' c'') = None"
    by (simp_all add: asc_def re_match_def marker_def JE_def JO_def NL_def)
  have "findall pattern
      ([] @ [JE, 0x31, JO] @ (asc '' a'' @ [NL]) @ [JE, 0x32, JO] @ (asc '' b'' @ [NL]) @
       [JE, 0x33, JO] @ asc '' c'') =
      [[JE, 0x31, JO] @ (asc '' a'' @ [NL]), [JE, 0x32, JO] @ (asc '' b'' @ [NL]),
       [JE, 0x33, JO] @ asc '' c'']"
    using digit_markers h by (rule findall_three_clauses)
  then have "map page_content
      (law_docs
         ([JE, 0x31, JO] @ (asc '' a'' @ [NL]) @ [JE, 0x32, JO] @ (asc '' b'' @ [NL]) @
          [JE, 0x33, JO] @ asc '' c'') :: unit document list) =
      [strip ([JE, 0x31, JO] @ (asc '' a'' @ [NL])), strip ([JE, 0x32, JO] @ (asc '' b'' @ [NL])),
       strip ([JE, 0x33, JO] @ asc '' c'')]"
    by (simp add: law_docs_def page_content_law_doc)
  moreover have "strip ([JE, 0x31, JO] @ (asc '' a'' @ [NL])) = [JE, 0x31, JO] @ asc '' a''"
    by (simp add: strip_def is_space_def asc_def JE_def JO_def NL_def)
  ultimately show ?thesis
    by (simp add: asc_def)
qed

text \<open>
  C10. Every match of the primary pattern begins with a marker, which lies on the first
  line and survives \<open>strip\<close>; so the search of the number pattern in the header line
  succeeds with a non-empty run of decimal digits as group 1, and every law document
  carries that run as its \<open>law_number\<close>. The \<open>else ""\<close> branch is never taken.
\<close>

theorem law_number_is_found:
  "(\<forall>m\<in>set (findall pattern text).
      \<exists>ds. ds \<noteq> [] \<and> list_all is_decimal ds \<and>
        re_search number_pattern (strip (hd (split_on NL m))) = Some (Some ds)) \<and>
   (\<forall>d\<in>set (law_docs text :: 'v document list).
      \<exists>ds. ds \<noteq> [] \<and> list_all is_decimal ds \<and>
        metadata d (asc ''law_number'') = Some (MStr ds))"
proof -
  have form: "\<exists>ds t. ds \<noteq> [] \<and> list_all is_decimal ds \<and> m = JE # ds @ JO # t"
    if "m \<in> set (findall pattern text)" for m
  proof -
    from that have "after_marker m \<noteq> None"
      by (rule findall_pattern_elems)
    then obtain t where "after_marker m = Some t"
      by auto
    then show ?thesis
      using after_marker_iff by blast
  qed
  have "\<exists>ds. ds \<noteq> [] \<and> list_all is_decimal ds \<and>
      re_search number_pattern (strip (hd (split_on NL m))) = Some (Some ds)"
    if "m \<in> set (findall pattern text)" for m
    using form [OF that] law_doc_clause(1) by blast
  moreover have "\<exists>ds. ds \<noteq> [] \<and> list_all is_decimal ds \<and>
      metadata d (asc ''law_number'') = Some (MStr ds)"
    if "d \<in> set (law_docs text :: 'v document list)" for d
  proof -
    from that obtain m where m: "m \<in> set (findall pattern text)" and d: "d = law_doc m"
      by (auto simp: law_docs_def)
    from form [OF m] obtain ds t where "ds \<noteq> []" "list_all is_decimal ds" "m = JE # ds @ JO # t"
      by blast
    with d show ?thesis
      using law_doc_clause(2) by blast
  qed
  ultimately show ?thesis
    by blast
qed

theorem law_number_is_found_witness:
  "findall pattern ([JE, 0x31, 0x32, JO] @ asc '' Scope '' @ [NL] @ asc ''of JO'') =
     [[JE, 0x31, 0x32, JO] @ asc '' Scope '' @ [NL] @ asc ''of JO''] \<and>
   re_search number_pattern
     (strip (hd (split_on NL ([JE, 0x31, 0x32, JO] @ asc '' Scope '' @ [NL] @ asc ''of JO'')))) =
     Some (Some [0x31, 0x32]) \<and>
   metadata
     (hd (law_docs ([JE, 0x31, 0x32, JO] @ asc '' Scope '' @ [NL] @ asc ''of JO'')
        :: unit document list))
     (asc ''law_number'') =
     Some (MStr [0x31, 0x32])"
proof -
  let ?m = "[JE, 0x31, 0x32, JO] @ asc '' Scope '' @ [NL] @ asc ''of JO''"
  have d: "list_all is_decimal [0x31, 0x32]"
    by (simp add: is_decimal_def nd_ranges_def)
  have "re_search marker (asc '' Scope '' @ [NL] @ asc ''of JO'') = None"
    by (simp add: asc_def re_match_def marker_def JE_def JO_def NL_def)
  moreover have "after_marker [JE, 0x31, 0x32, JO] = Some []"
    using d by (simp add: JO_def)
  ultimately have "findall pattern
      ([JE, 0x31, 0x32, JO] @ (asc '' Scope '' @ [NL] @ asc ''of JO'') @ []) =
      ([JE, 0x31, 0x32, JO] @ (asc '' Scope '' @ [NL] @ asc ''of JO'')) # findall pattern []"
    by (intro findall_segment) simp_all
  then have f: "findall pattern ?m = [?m]"
    by (simp add: findall_pattern_Nil)
  have m: "?m = JE # [0x31, 0x32] @ JO # (asc '' Scope '' @ [NL] @ asc ''of JO'')"
    by simp
  from law_number_is_found [of ?m] f
  obtain ds where ds: "re_search number_pattern (strip (hd (split_on NL ?m))) = Some (Some ds)"
    by auto
  have "re_search number_pattern (strip (hd (split_on NL ?m))) = Some (Some [0x31, 0x32])"
    unfolding m using d by (intro law_doc_clause(1)) simp_all
  with ds have n: "ds = [0x31, 0x32]"
    by simp
  have "metadata (law_doc ?m :: unit document) (asc ''law_number'') = Some (MStr [0x31, 0x32])"
    unfolding m using d by (intro law_doc_clause(2)) simp_all
  with f ds n show ?thesis
    by (simp add: law_docs_def)
qed

section \<open>Properties of the record loader\<close>

lemma fstring_template:
  "fstring fmt (template fs) r =
     (case first_missing fs r of
        None \<Rightarrow> Inr (labelled_lines fmt fs r)
      | Some k \<Rightarrow> Inl (KeyError k))"
proof (induction fs rule: template.induct)
  case 1
  show ?case
    by (simp add: first_missing_def labelled_lines_def)
next
  case (2 label key)
  show ?case
    by (cases "r key") (simp_all add: first_missing_def labelled_lines_def value_text_def)
next
  case (3 label key f fs)
  show ?case
  proof (cases "r key")
    case None
    then show ?thesis
      by (simp add: first_missing_def)
  next
    case (Some v)
    have fm: "first_missing ((label, key) # f # fs) r = first_missing (f # fs) r"
      using Some by (simp add: first_missing_def)
    have ll: "labelled_lines fmt ((label, key) # f # fs) r =
        label @ fmt v @ [NL] @ labelled_lines fmt (f # fs) r"
      using Some by (cases f) (simp add: labelled_lines_def value_text_def)
    show ?thesis
      using Some "3.IH" by (simp add: fm ll split: option.splits)
  qed
qed

lemma complete_iff: "complete fs r \<longleftrightarrow> first_missing fs r = None"
  by (simp add: complete_def first_missing_def find_None_iff list_all_iff)

lemma first_missing_Some:
  "first_missing fs r = Some k \<Longrightarrow> k \<in> set (map snd fs) \<and> r k = None"
  unfolding first_missing_def by (auto simp: find_Some_iff)

lemma record_doc_complete:
  assumes "complete fs r" and "r (asc ''title'') = Some t"
  shows "record_doc fs cat fmt r =
           Inr \<lparr>page_content = labelled_lines fmt fs r,
                metadata = [asc ''type'' \<mapsto> MStr cat, asc ''title'' \<mapsto> MRaw t]\<rparr>"
  using assms by (simp add: record_doc_def fstring_template complete_iff)

lemma record_doc_missing:
  assumes "first_missing fs r = Some k"
  shows "record_doc fs cat fmt r = Inl (KeyError k)"
  using assms by (simp add: record_doc_def fstring_template)

lemma record_doc_cases:
  "(\<exists>k. record_doc fs cat fmt r = Inl (KeyError k)) \<or> (\<exists>d. record_doc fs cat fmt r = Inr d)"
  by (simp add: record_doc_def fstring_template split: option.splits)

lemma load_docs_complete:
  assumes "\<And>r. r \<in> set rs \<Longrightarrow> f r = Inr (g r)"
  shows "load_docs f rs = Inr (map g rs)"
  using assms by (induction rs) simp_all

lemma load_docs_fails:
  assumes "r \<in> set rs" and "\<exists>k. f r = Inl (KeyError k)"
    and "\<And>r'. (\<exists>k. f r' = Inl (KeyError k)) \<or> (\<exists>d. f r' = Inr d)"
  shows "\<exists>k. load_docs f rs = Inl (KeyError k)"
  using assms(1,2)
proof (induction rs)
  case Nil
  then show ?case by simp
next
  case (Cons a rs)
  from assms(3) [of a] show ?case
  proof
    assume "\<exists>k. f a = Inl (KeyError k)"
    then show ?thesis by auto
  next
    assume "\<exists>d. f a = Inr d"
    then obtain d where d: "f a = Inr d" by blast
    with Cons.prems have "r \<in> set rs" by auto
    from Cons.IH [OF this Cons.prems(2)] d show ?thesis
      by auto
  qed
qed

lemma after_first_decomp: "after_first p t = Some u \<Longrightarrow> \<exists>a. t = a @ p @ u"
proof (induction t)
  case Nil
  then show ?case by (auto split: if_splits)
next
  case (Cons c t)
  show ?case
  proof (cases "take (length p) (c # t) = p")
    case True
    with Cons.prems have "u = drop (length p) (c # t)" by simp
    with True have "c # t = [] @ p @ u"
      by (metis append_Nil append_take_drop_id)
    then show ?thesis by blast
  next
    case False
    with Cons.prems have "after_first p t = Some u" by simp
    with Cons.IH obtain a where "t = a @ p @ u" by blast
    then have "c # t = (c # a) @ p @ u" by simp
    then show ?thesis by blast
  qed
qed

lemma after_first_grows: "after_first p b = Some u \<Longrightarrow> \<exists>y. after_first p (x @ b) = Some (y @ u)"
proof (induction x)
  case Nil
  then show ?case by simp
next
  case (Cons c x)
  show ?case
  proof (cases "take (length p) (c # x @ b) = p")
    case True
    from Cons.prems obtain a where b: "b = a @ p @ u"
      using after_first_decomp by blast
    have "length p \<le> length (c # x @ a @ p)" by simp
    then have "drop (length p) ((c # x @ a @ p) @ u) = drop (length p) (c # x @ a @ p) @ u"
      by (simp only: drop_append) simp
    with True b show ?thesis by simp
  next
    case False
    with Cons show ?thesis by simp
  qed
qed

lemma after_first_occurrence: "\<exists>y. after_first p (a @ p @ b) = Some (y @ b)"
proof -
  have "after_first p (p @ b) = Some b"
  proof (cases "p @ b")
    case Nil
    then show ?thesis by simp
  next
    case (Cons c t)
    have "take (length p) (p @ b) = p" and "drop (length p) (p @ b) = b"
      by simp_all
    then have "after_first p (c # t) = Some b"
      unfolding Cons by simp
    with Cons show ?thesis by simp
  qed
  from after_first_grows [OF this, of a] show ?thesis .
qed

lemma in_order_grows: "in_order ps b \<Longrightarrow> in_order ps (x @ b)"
proof (induction ps arbitrary: b x)
  case Nil
  show ?case by simp
next
  case (Cons p ps)
  from Cons.prems obtain u where u: "after_first p b = Some u" and o: "in_order ps u"
    by (auto split: option.splits)
  from after_first_grows [OF u, of x] obtain y where "after_first p (x @ b) = Some (y @ u)"
    by blast
  with Cons.IH [OF o, of y] show ?case by simp
qed

lemma in_order_labelled_lines:
  "in_order (map (value_text fmt r) (map snd fs)) (labelled_lines fmt fs r)"
proof (induction fs rule: template.induct)
  case 1
  show ?case by simp
next
  case (2 label key)
  from after_first_occurrence [of "value_text fmt r key" label "[]"] show ?case
    by (auto simp: labelled_lines_def)
next
  case (3 label key f fs)
  let ?rest = "labelled_lines fmt (f # fs) r"
  have ll: "labelled_lines fmt ((label, key) # f # fs) r =
      label @ value_text fmt r key @ ([NL] @ ?rest)"
    by (cases f) (simp add: labelled_lines_def)
  from after_first_occurrence [of "value_text fmt r key" label "[NL] @ ?rest"]
  obtain y where y: "after_first (value_text fmt r key) (label @ value_text fmt r key @ ([NL] @ ?rest)) =
      Some (y @ [NL] @ ?rest)"
    by auto
  from in_order_grows [OF "3.IH", of "y @ [NL]"] y show ?case
    by (simp add: ll)
qed

lemma title_in_fields:
  "complete accident_fields r \<Longrightarrow> r (asc ''title'') \<noteq> None"
  "complete education_fields r \<Longrightarrow> r (asc ''title'') \<noteq> None"
  by (simp_all add: complete_def accident_fields_def education_fields_def)

lemma record_doc_complete_ex:
  assumes "complete fs r" and "r (asc ''title'') \<noteq> None"
  shows "\<exists>t. r (asc ''title'') = Some t \<and>
      record_doc fs cat fmt r =
        Inr \<lparr>page_content = labelled_lines fmt fs r,
             metadata = [asc ''type'' \<mapsto> MStr cat, asc ''title'' \<mapsto> MRaw t]\<rparr>"
proof -
  from assms(2) obtain t where t: "r (asc ''title'') = Some t"
    by blast
  from record_doc_complete [OF assms(1) t] t show ?thesis
    by blast
qed

lemma load_docs_records:
  assumes "\<And>r. r \<in> set rs \<Longrightarrow> complete fs r \<and> r (asc ''title'') \<noteq> None"
  shows "\<exists>ds. load_docs (record_doc fs cat fmt) rs = Inr ds \<and>
      map page_content ds = map (labelled_lines fmt fs) rs"
  using assms
proof (induction rs)
  case Nil
  show ?case by simp
next
  case (Cons r rs)
  from Cons.prems [of r] have "complete fs r" and "r (asc ''title'') \<noteq> None"
    by simp_all
  from record_doc_complete_ex [OF this, of cat fmt]
  obtain d where d: "record_doc fs cat fmt r = Inr d" and pd: "page_content d = labelled_lines fmt fs r"
    by force
  from Cons.IH Cons.prems
  obtain ds where "load_docs (record_doc fs cat fmt) rs = Inr ds"
    and "map page_content ds = map (labelled_lines fmt fs) rs"
    by auto
  with d pd have "load_docs (record_doc fs cat fmt) (r # rs) = Inr (d # ds) \<and>
      map page_content (d # ds) = map (labelled_lines fmt fs) (r # rs)"
    by simp
  then show ?case by blast
qed


text \<open>
  C5. A record that has every required field gives one document. Its text is the lines
  of the fields in the fixed order (for accident cases: title, date, location, industry,
  work_type, accident_type, damage, summary, direct_cause, root_cause, risk_keywords,
  prevention), each line the label followed by the formatted value, the lines separated by
  line feeds; so the values occur in it one after the other in that order. Its metadata
  is the category tag and the title of the record. A list of such records gives one
  document for each, in order.
\<close>

theorem complete_record_document:
  "(complete accident_fields r \<longrightarrow>
      (\<exists>t. r (asc ''title'') = Some t \<and>
         accident_doc fmt r =
           Inr \<lparr>page_content = labelled_lines fmt accident_fields r,
                metadata = [asc ''type'' \<mapsto> MStr (asc ''accident''), asc ''title'' \<mapsto> MRaw t]\<rparr>)) \<and>
   (complete education_fields r \<longrightarrow>
      (\<exists>t. r (asc ''title'') = Some t \<and>
         edu_doc fmt r =
           Inr \<lparr>page_content = labelled_lines fmt education_fields r,
                metadata = [asc ''type'' \<mapsto> MStr (asc ''education''), asc ''title'' \<mapsto> MRaw t]\<rparr>)) \<and>
   in_order (map (value_text fmt r) (map snd accident_fields))
     (labelled_lines fmt accident_fields r) \<and>
   in_order (map (value_text fmt r) (map snd education_fields))
     (labelled_lines fmt education_fields r) \<and>
   map snd accident_fields =
     map asc [''title'', ''date'', ''location'', ''industry'', ''work_type'', ''accident_type'',
       ''damage'', ''summary'', ''direct_cause'', ''root_cause'', ''risk_keywords'', ''prevention''] \<and>
   (list_all (complete accident_fields) rs \<longrightarrow>
      (\<exists>ds. load_docs (accident_doc fmt) rs = Inr ds \<and>
         map page_content ds = map (labelled_lines fmt accident_fields) rs)) \<and>
   (list_all (complete education_fields) rs \<longrightarrow>
      (\<exists>ds. load_docs (edu_doc fmt) rs = Inr ds \<and>
         map page_content ds = map (labelled_lines fmt education_fields) rs))"
proof (intro conjI impI)
  assume "complete accident_fields r"
  then show "\<exists>t. r (asc ''title'') = Some t \<and>
      accident_doc fmt r =
        Inr \<lparr>page_content = labelled_lines fmt accident_fields r,
             metadata = [asc ''type'' \<mapsto> MStr (asc ''accident''), asc ''title'' \<mapsto> MRaw t]\<rparr>"
    unfolding accident_doc_def by (intro record_doc_complete_ex title_in_fields(1))
next
  assume "complete education_fields r"
  then show "\<exists>t. r (asc ''title'') = Some t \<and>
      edu_doc fmt r =
        Inr \<lparr>page_content = labelled_lines fmt education_fields r,
             metadata = [asc ''type'' \<mapsto> MStr (asc ''education''), asc ''title'' \<mapsto> MRaw t]\<rparr>"
    unfolding edu_doc_def by (intro record_doc_complete_ex title_in_fields(2))
next
  show "in_order (map (value_text fmt r) (map snd accident_fields))
      (labelled_lines fmt accident_fields r)"
    by (rule in_order_labelled_lines)
next
  show "in_order (map (value_text fmt r) (map snd education_fields))
      (labelled_lines fmt education_fields r)"
    by (rule in_order_labelled_lines)
next
  show "map snd accident_fields =
      map asc [''title'', ''date'', ''location'', ''industry'', ''work_type'', ''accident_type'',
        ''damage'', ''summary'', ''direct_cause'', ''root_cause'', ''risk_keywords'', ''prevention'']"
    by (simp add: accident_fields_def)
next
  assume "list_all (complete accident_fields) rs"
  then have "complete accident_fields r' \<and> r' (asc ''title'') \<noteq> None" if "r' \<in> set rs" for r'
    using that title_in_fields(1) [of r'] by (simp add: list_all_iff)
  then show "\<exists>ds. load_docs (accident_doc fmt) rs = Inr ds \<and>
      map page_content ds = map (labelled_lines fmt accident_fields) rs"
    unfolding accident_doc_def by (rule load_docs_records)
next
  assume "list_all (complete education_fields) rs"
  then have "complete education_fields r' \<and> r' (asc ''title'') \<noteq> None" if "r' \<in> set rs" for r'
    using that title_in_fields(2) [of r'] by (simp add: list_all_iff)
  then show "\<exists>ds. load_docs (edu_doc fmt) rs = Inr ds \<and>
      map page_content ds = map (labelled_lines fmt education_fields) rs"
    unfolding edu_doc_def by (rule load_docs_records)
qed

lemma example_record_complete:
  "complete accident_fields example_record" "complete education_fields example_record"
  by (simp_all add: complete_def accident_fields_def education_fields_def example_record_def
      asc_def)

theorem complete_record_document_witness:
  "complete accident_fields example_record \<and> complete education_fields example_record \<and>
   list_all (complete accident_fields) [example_record] \<and>
   list_all (complete education_fields) [example_record] \<and>
   accident_doc (\<lambda>v. v) example_record =
     Inr \<lparr>page_content = labelled_lines (\<lambda>v. v) accident_fields example_record,
          metadata = [asc ''type'' \<mapsto> MStr (asc ''accident''),
                      asc ''title'' \<mapsto> MRaw (asc ''Fall from scaffold'')]\<rparr> \<and>
   edu_doc (\<lambda>v. v) example_record =
     Inr \<lparr>page_content = labelled_lines (\<lambda>v. v) education_fields example_record,
          metadata = [asc ''type'' \<mapsto> MStr (asc ''education''),
                      asc ''title'' \<mapsto> MRaw (asc ''Fall from scaffold'')]\<rparr> \<and>
   map_sum id (map page_content) (load_docs (accident_doc (\<lambda>v. v)) [example_record]) =
     Inr [labelled_lines (\<lambda>v. v) accident_fields example_record] \<and>
   map_sum id (map page_content) (load_docs (edu_doc (\<lambda>v. v)) [example_record]) =
     Inr [labelled_lines (\<lambda>v. v) education_fields example_record]"
proof -
  note c = example_record_complete
  have t: "example_record (asc ''title'') = Some (asc ''Fall from scaffold'')"
    by (simp add: example_record_def asc_def)
  have l: "list_all (complete accident_fields) [example_record]"
    "list_all (complete education_fields) [example_record]"
    using c by simp_all
  note inst = complete_record_document [of example_record "\<lambda>v. v" "[example_record]"]
  from inst c(1) t have 1: "accident_doc (\<lambda>v. v) example_record =
     Inr \<lparr>page_content = labelled_lines (\<lambda>v. v) accident_fields example_record,
          metadata = [asc ''type'' \<mapsto> MStr (asc ''accident''),
                      asc ''title'' \<mapsto> MRaw (asc ''Fall from scaffold'')]\<rparr>"
    by auto
  from inst c(2) t have 2: "edu_doc (\<lambda>v. v) example_record =
     Inr \<lparr>page_content = labelled_lines (\<lambda>v. v) education_fields example_record,
          metadata = [asc ''type'' \<mapsto> MStr (asc ''education''),
                      asc ''title'' \<mapsto> MRaw (asc ''Fall from scaffold'')]\<rparr>"
    by auto
  from inst l(1) have 3: "map_sum id (map page_content)
      (load_docs (accident_doc (\<lambda>v. v)) [example_record]) =
     Inr [labelled_lines (\<lambda>v. v) accident_fields example_record]"
    by auto
  from inst l(2) have 4: "map_sum id (map page_content)
      (load_docs (edu_doc (\<lambda>v. v)) [example_record]) =
     Inr [labelled_lines (\<lambda>v. v) education_fields example_record]"
    by auto
  from c l 1 2 3 4 show ?thesis
    by blast
qed

lemma record_doc_incomplete:
  assumes "\<not> complete fs r"
  shows "\<exists>k. first_missing fs r = Some k \<and> r k = None \<and> record_doc fs cat fmt r = Inl (KeyError k)"
proof -
  from assms obtain k where k: "first_missing fs r = Some k"
    by (auto simp: complete_iff)
  from first_missing_Some [OF k] record_doc_missing [OF k] k show ?thesis
    by blast
qed

lemma load_docs_incomplete:
  assumes "r \<in> set rs" and "\<not> complete fs r"
  shows "\<exists>k. load_docs (record_doc fs cat fmt) rs = Inl (KeyError k)"
proof (rule load_docs_fails [OF assms(1)])
  from record_doc_incomplete [OF assms(2)]
  show "\<exists>k. record_doc fs cat fmt r = Inl (KeyError k)"
    by blast
next
  fix r' :: "ustr \<rightharpoonup> 'a"
  show "(\<exists>k. record_doc fs cat fmt r' = Inl (KeyError k)) \<or> (\<exists>d. record_doc fs cat fmt r' = Inr d)"
    by (rule record_doc_cases)
qed

text \<open>
  C6. A record that lacks a required field gives no document: the loop iteration raises
  \<open>KeyError\<close> for the first field, in field order, that is absent; no default is put in
  its place. The loading loop over a list holding such a record ends with a \<open>KeyError\<close>
  and returns no list, and the script aborts with it, having printed no line of the
  loop it was in.
\<close>

theorem incomplete_record_key_error:
  "(\<not> complete accident_fields r \<longrightarrow>
      (\<exists>k. first_missing accident_fields r = Some k \<and> r k = None \<and>
         accident_doc fmt r = Inl (KeyError k))) \<and>
   (\<not> complete education_fields r \<longrightarrow>
      (\<exists>k. first_missing education_fields r = Some k \<and> r k = None \<and>
         edu_doc fmt r = Inl (KeyError k))) \<and>
   (r \<in> set rs \<and> \<not> complete accident_fields r \<longrightarrow>
      (\<exists>k. load_docs (accident_doc fmt) rs = Inl (KeyError k))) \<and>
   (r \<in> set rs \<and> \<not> complete education_fields r \<longrightarrow>
      (\<exists>k. load_docs (edu_doc fmt) rs = Inl (KeyError k))) \<and>
   (read_json env ACCIDENT_JSON = Inr rs \<and> r \<in> set rs \<and> \<not> complete accident_fields r \<longrightarrow>
      (\<exists>k. build_safety_rag_db env fmt = (Aborted (KeyError k), []))) \<and>
   (read_json env ACCIDENT_JSON = Inr cases \<and>
    load_docs (accident_doc fmt) cases = Inr accident_docs \<and>
    read_json env EDUCATION_JSON = Inr rs \<and> r \<in> set rs \<and> \<not> complete education_fields r \<longrightarrow>
      (\<exists>k. build_safety_rag_db env fmt =
         (Aborted (KeyError k), [info_accident (length accident_docs)])))"
proof (intro conjI impI)
  assume "\<not> complete accident_fields r"
  then show "\<exists>k. first_missing accident_fields r = Some k \<and> r k = None \<and>
      accident_doc fmt r = Inl (KeyError k)"
    unfolding accident_doc_def by (rule record_doc_incomplete)
next
  assume "\<not> complete education_fields r"
  then show "\<exists>k. first_missing education_fields r = Some k \<and> r k = None \<and>
      edu_doc fmt r = Inl (KeyError k)"
    unfolding edu_doc_def by (rule record_doc_incomplete)
next
  assume "r \<in> set rs \<and> \<not> complete accident_fields r"
  then show "\<exists>k. load_docs (accident_doc fmt) rs = Inl (KeyError k)"
    unfolding accident_doc_def using load_docs_incomplete by blast
next
  assume "r \<in> set rs \<and> \<not> complete education_fields r"
  then show "\<exists>k. load_docs (edu_doc fmt) rs = Inl (KeyError k)"
    unfolding edu_doc_def using load_docs_incomplete by blast
next
  assume a: "read_json env ACCIDENT_JSON = Inr rs \<and> r \<in> set rs \<and> \<not> complete accident_fields r"
  then obtain k where "load_docs (accident_doc fmt) rs = Inl (KeyError k)"
    unfolding accident_doc_def using load_docs_incomplete by blast
  with a have "build_safety_rag_db env fmt = (Aborted (KeyError k), [])"
    by (simp add: build_safety_rag_db_def)
  then show "\<exists>k. build_safety_rag_db env fmt = (Aborted (KeyError k), [])"
    by blast
next
  assume a: "read_json env ACCIDENT_JSON = Inr cases \<and>
    load_docs (accident_doc fmt) cases = Inr accident_docs \<and>
    read_json env EDUCATION_JSON = Inr rs \<and> r \<in> set rs \<and> \<not> complete education_fields r"
  then obtain k where "load_docs (edu_doc fmt) rs = Inl (KeyError k)"
    unfolding edu_doc_def using load_docs_incomplete by blast
  with a have "build_safety_rag_db env fmt =
      (Aborted (KeyError k), [info_accident (length accident_docs)])"
    by (simp add: build_safety_rag_db_def Let_def)
  then show "\<exists>k. build_safety_rag_db env fmt =
      (Aborted (KeyError k), [info_accident (length accident_docs)])"
    by blast
qed


lemma example_partial_incomplete:
  "\<not> complete accident_fields example_partial" "\<not> complete education_fields example_partial"
  "first_missing accident_fields example_partial = Some (asc ''date'')"
  "first_missing education_fields example_partial = Some (asc ''date'')"
  by (simp_all add: complete_def first_missing_def accident_fields_def education_fields_def
      example_partial_def example_record_def asc_def)

lemma example_record_docs:
  "\<exists>d. accident_doc (\<lambda>v. v) example_record = Inr d"
  "\<exists>d. edu_doc (\<lambda>v. v) example_record = Inr d"
proof -
  have t: "example_record (asc ''title'') = Some (asc ''Fall from scaffold'')"
    by (simp add: example_record_def asc_def)
  from record_doc_complete [OF example_record_complete(1) t]
  show "\<exists>d. accident_doc (\<lambda>v. v) example_record = Inr d"
    unfolding accident_doc_def by blast
  from record_doc_complete [OF example_record_complete(2) t]
  show "\<exists>d. edu_doc (\<lambda>v. v) example_record = Inr d"
    unfolding edu_doc_def by blast
qed

theorem incomplete_record_key_error_witness:
  "\<not> complete accident_fields example_partial \<and> \<not> complete education_fields example_partial \<and>
   example_partial \<in> set [example_record, example_partial] \<and>
   read_json example_environment ACCIDENT_JSON = Inr [example_record, example_partial] \<and>
   read_json example_environment_edu ACCIDENT_JSON = Inr [example_record] \<and>
   read_json example_environment_edu EDUCATION_JSON = Inr [example_record, example_partial] \<and>
   example_partial (asc ''date'') = None \<and>
   accident_doc (\<lambda>v. v) example_partial = Inl (KeyError (asc ''date'')) \<and>
   edu_doc (\<lambda>v. v) example_partial = Inl (KeyError (asc ''date'')) \<and>
   load_docs (accident_doc (\<lambda>v. v)) [example_record, example_partial] =
     Inl (KeyError (asc ''date'')) \<and>
   load_docs (edu_doc (\<lambda>v. v)) [example_record, example_partial] =
     Inl (KeyError (asc ''date'')) \<and>
   build_safety_rag_db example_environment (\<lambda>v. v) = (Aborted (KeyError (asc ''date'')), []) \<and>
   build_safety_rag_db example_environment_edu (\<lambda>v. v) =
     (Aborted (KeyError (asc ''date'')), [info_accident 1])"
proof -
  note n = example_partial_incomplete
  have m: "example_partial \<in> set [example_record, example_partial]"
    by simp
  have e: "read_json example_environment ACCIDENT_JSON = Inr [example_record, example_partial]"
    "read_json example_environment_edu ACCIDENT_JSON = Inr [example_record]"
    "read_json example_environment_edu EDUCATION_JSON = Inr [example_record, example_partial]"
    by (simp_all add: example_environment_def example_environment_edu_def ACCIDENT_JSON_def
        EDUCATION_JSON_def asc_def)
  note inst = incomplete_record_key_error [of example_partial "\<lambda>v. v"]
  from inst n have 1: "example_partial (asc ''date'') = None"
    "accident_doc (\<lambda>v. v) example_partial = Inl (KeyError (asc ''date''))"
    "edu_doc (\<lambda>v. v) example_partial = Inl (KeyError (asc ''date''))"
    by auto
  from example_record_docs obtain d d' where d: "accident_doc (\<lambda>v. v) example_record = Inr d"
    "edu_doc (\<lambda>v. v) example_record = Inr d'"
    by blast
  have 2: "load_docs (accident_doc (\<lambda>v. v)) [example_record, example_partial] =
      Inl (KeyError (asc ''date''))"
    "load_docs (edu_doc (\<lambda>v. v)) [example_record, example_partial] =
      Inl (KeyError (asc ''date''))"
    "load_docs (accident_doc (\<lambda>v. v)) [example_record] = Inr [d]"
    using 1 d by simp_all
  have 3: "build_safety_rag_db example_environment (\<lambda>v. v) =
      (Aborted (KeyError (asc ''date'')), [])"
    using e(1) 2(1) by (simp add: build_safety_rag_db_def)
  have 4: "build_safety_rag_db example_environment_edu (\<lambda>v. v) =
      (Aborted (KeyError (asc ''date'')), [info_accident 1])"
    using e(2,3) 2(2,3) by (simp add: build_safety_rag_db_def Let_def)
  from n(1,2) m e 1 2(1,2) 3 4 show ?thesis
    by blast
qed

section \<open>Properties of the scripts\<close>

lemma length_to_chunks: "length (to_chunks i cs) = length cs"
  by (induction cs arbitrary: i) simp_all

lemma chunk_pdf_success:
  assumes "load env pdf_path = Inr documents"
    and "split env chunking_config documents = Inr chunked_docs"
    and "dump env output_path (to_chunks 0 chunked_docs) = Inr ()"
  shows "chunk_pdf env pdf_path output_path =
           (length chunked_docs,
            [msg_loading pdf_path, msg_pages (length documents), msg_total (length chunked_docs),
             msg_saved output_path, msg_created (length chunked_docs)])"
  using assms by (simp add: chunk_pdf_def Let_def length_to_chunks)

lemma chunk_pdf_load_fails:
  assumes "load env pdf_path = Inl m"
  shows "chunk_pdf env pdf_path output_path = (0, [msg_loading pdf_path, msg_error m])"
  using assms by (simp add: chunk_pdf_def Let_def)

text \<open>
  C8. Called with any number of arguments but two (\<open>sys.argv\<close> of a length other than
  three), the chunking script prints its usage line and exits with status 1. Called with
  two, when loading, splitting and writing succeed, it prints its progress lines, ending
  with the two lines that give the number of chunks, and completes.
\<close>

theorem main_usage_and_summary:
  "(length argv \<noteq> 3 \<longrightarrow> main env argv = (Exit 1, [msg_usage])) \<and>
   (length argv = 3 \<and> load env (argv ! 1) = Inr documents \<and>
    split env chunking_config documents = Inr chunked_docs \<and>
    dump env (argv ! 2) (to_chunks 0 chunked_docs) = Inr () \<longrightarrow>
      main env argv =
        (Completed,
         [msg_loading (argv ! 1), msg_pages (length documents), msg_total (length chunked_docs),
          msg_saved (argv ! 2), msg_created (length chunked_docs),
          msg_done (length chunked_docs)]))"
proof (intro conjI impI)
  assume "length argv \<noteq> 3"
  then show "main env argv = (Exit 1, [msg_usage])"
    by (simp add: main_def)
next
  assume a: "length argv = 3 \<and> load env (argv ! 1) = Inr documents \<and>
    split env chunking_config documents = Inr chunked_docs \<and>
    dump env (argv ! 2) (to_chunks 0 chunked_docs) = Inr ()"
  then have "chunk_pdf env (argv ! 1) (argv ! 2) =
      (length chunked_docs,
       [msg_loading (argv ! 1), msg_pages (length documents), msg_total (length chunked_docs),
        msg_saved (argv ! 2), msg_created (length chunked_docs)])"
    by (intro chunk_pdf_success) simp_all
  with a show "main env argv =
      (Completed,
       [msg_loading (argv ! 1), msg_pages (length documents), msg_total (length chunked_docs),
        msg_saved (argv ! 2), msg_created (length chunked_docs),
        msg_done (length chunked_docs)])"
    by (simp add: main_def Let_def)
qed

theorem main_usage_and_summary_witness:
  "length [asc ''pdf_chunking.py'', asc ''law.pdf''] \<noteq> 3 \<and>
   main example_chunk_environment [asc ''pdf_chunking.py'', asc ''law.pdf''] =
     (Exit 1, [msg_usage]) \<and>
   length [asc ''pdf_chunking.py'', asc ''law.pdf'', asc ''chunks.json''] = 3 \<and>
   load example_chunk_environment (asc ''law.pdf'') = Inr example_pages \<and>
   split example_chunk_environment chunking_config example_pages = Inr example_pages \<and>
   dump example_chunk_environment (asc ''chunks.json'') (to_chunks 0 example_pages) = Inr () \<and>
   main example_chunk_environment [asc ''pdf_chunking.py'', asc ''law.pdf'', asc ''chunks.json''] =
     (Completed,
      [msg_loading (asc ''law.pdf''), msg_pages 2, msg_total 2, msg_saved (asc ''chunks.json''),
       msg_created 2, msg_done 2])"
proof -
  have h: "load example_chunk_environment (asc ''law.pdf'') = Inr example_pages"
    "split example_chunk_environment chunking_config example_pages = Inr example_pages"
    "dump example_chunk_environment (asc ''chunks.json'') (to_chunks 0 example_pages) = Inr ()"
    by (simp_all add: example_chunk_environment_def)
  have n: "length example_pages = 2"
    by (simp add: example_pages_def)
  from main_usage_and_summary [of "[asc ''pdf_chunking.py'', asc ''law.pdf'']"
      example_chunk_environment]
  have 1: "main example_chunk_environment [asc ''pdf_chunking.py'', asc ''law.pdf''] =
      (Exit 1, [msg_usage])"
    by simp
  from main_usage_and_summary [of "[asc ''pdf_chunking.py'', asc ''law.pdf'', asc ''chunks.json'']"
      example_chunk_environment example_pages example_pages] h n
  have 2: "main example_chunk_environment
      [asc ''pdf_chunking.py'', asc ''law.pdf'', asc ''chunks.json''] =
     (Completed,
      [msg_loading (asc ''law.pdf''), msg_pages 2, msg_total 2, msg_saved (asc ''chunks.json''),
       msg_created 2, msg_done 2])"
    by simp
  from h 1 2 show ?thesis
    by simp
qed


text \<open>
  C7, amended. The database builder aborts on an input file it cannot read: the exception
  raised by opening or parsing the accident file, the training file or the law PDF is
  not caught, and ends the run after the lines printed so far. The chunking script does
  not abort: \<open>chunk_pdf\<close> catches the exception raised by loading the PDF, prints the error
  line with its message and returns 0, and the script then prints its last line with the
  count 0 and completes normally.
\<close>

theorem input_failure_outcomes:
  "(read_json env ACCIDENT_JSON = Inl e \<longrightarrow> build_safety_rag_db env fmt = (Aborted e, [])) \<and>
   (read_json env ACCIDENT_JSON = Inr cases \<and>
    load_docs (accident_doc fmt) cases = Inr accident_docs \<and>
    read_json env EDUCATION_JSON = Inl e \<longrightarrow>
      build_safety_rag_db env fmt = (Aborted e, [info_accident (length accident_docs)])) \<and>
   (read_json env ACCIDENT_JSON = Inr cases \<and>
    load_docs (accident_doc fmt) cases = Inr accident_docs \<and>
    read_json env EDUCATION_JSON = Inr items \<and>
    load_docs (edu_doc fmt) items = Inr edu_docs \<and>
    load_pdf env LAW_PDF = Inl e \<longrightarrow>
      build_safety_rag_db env fmt =
        (Aborted e, [info_accident (length accident_docs), info_education (length edu_docs)])) \<and>
   (length argv = 3 \<and> load cenv (argv ! 1) = Inl m \<longrightarrow>
      chunk_pdf cenv (argv ! 1) (argv ! 2) = (0, [msg_loading (argv ! 1), msg_error m]) \<and>
      main cenv argv = (Completed, [msg_loading (argv ! 1), msg_error m, msg_done 0]))"
proof (intro conjI impI)
  assume "read_json env ACCIDENT_JSON = Inl e"
  then show "build_safety_rag_db env fmt = (Aborted e, [])"
    by (simp add: build_safety_rag_db_def)
next
  assume "read_json env ACCIDENT_JSON = Inr cases \<and>
    load_docs (accident_doc fmt) cases = Inr accident_docs \<and>
    read_json env EDUCATION_JSON = Inl e"
  then show "build_safety_rag_db env fmt = (Aborted e, [info_accident (length accident_docs)])"
    by (simp add: build_safety_rag_db_def Let_def)
next
  assume "read_json env ACCIDENT_JSON = Inr cases \<and>
    load_docs (accident_doc fmt) cases = Inr accident_docs \<and>
    read_json env EDUCATION_JSON = Inr items \<and>
    load_docs (edu_doc fmt) items = Inr edu_docs \<and>
    load_pdf env LAW_PDF = Inl e"
  then show "build_safety_rag_db env fmt =
      (Aborted e, [info_accident (length accident_docs), info_education (length edu_docs)])"
    by (simp add: build_safety_rag_db_def Let_def)
next
  assume "length argv = 3 \<and> load cenv (argv ! 1) = Inl m"
  then show "chunk_pdf cenv (argv ! 1) (argv ! 2) = (0, [msg_loading (argv ! 1), msg_error m])"
    by (simp add: chunk_pdf_load_fails)
next
  assume "length argv = 3 \<and> load cenv (argv ! 1) = Inl m"
  then show "main cenv argv = (Completed, [msg_loading (argv ! 1), msg_error m, msg_done 0])"
    by (simp add: main_def Let_def chunk_pdf_load_fails)
qed

lemma example_missing_reads:
  "read_json (example_missing ACCIDENT_JSON) ACCIDENT_JSON =
     Inl (Raised (asc ''No such file or directory''))"
  "read_json (example_missing EDUCATION_JSON) ACCIDENT_JSON = Inr [example_record]"
  "read_json (example_missing EDUCATION_JSON) EDUCATION_JSON =
     Inl (Raised (asc ''No such file or directory''))"
  "read_json (example_missing LAW_PDF) ACCIDENT_JSON = Inr [example_record]"
  "read_json (example_missing LAW_PDF) EDUCATION_JSON = Inr [example_record]"
  "load_pdf (example_missing LAW_PDF) LAW_PDF = Inl (Raised (asc ''No such file or directory''))"
  by (simp_all add: example_missing_def ACCIDENT_JSON_def EDUCATION_JSON_def LAW_PDF_def asc_def)

theorem input_failure_outcomes_witness:
  "read_json (example_missing ACCIDENT_JSON) ACCIDENT_JSON =
     Inl (Raised (asc ''No such file or directory'')) \<and>
   build_safety_rag_db (example_missing ACCIDENT_JSON) (\<lambda>v. v) =
     (Aborted (Raised (asc ''No such file or directory'')), []) \<and>
   read_json (example_missing EDUCATION_JSON) EDUCATION_JSON =
     Inl (Raised (asc ''No such file or directory'')) \<and>
   build_safety_rag_db (example_missing EDUCATION_JSON) (\<lambda>v. v) =
     (Aborted (Raised (asc ''No such file or directory'')), [info_accident 1]) \<and>
   load_pdf (example_missing LAW_PDF) LAW_PDF = Inl (Raised (asc ''No such file or directory'')) \<and>
   build_safety_rag_db (example_missing LAW_PDF) (\<lambda>v. v) =
     (Aborted (Raised (asc ''No such file or directory'')), [info_accident 1, info_education 1]) \<and>
   length [asc ''pdf_chunking.py'', asc ''missing.pdf'', asc ''chunks.json''] = 3 \<and>
   load example_chunk_environment (asc ''missing.pdf'') =
     Inl (asc ''File path is not a valid file or url'') \<and>
   main example_chunk_environment
     [asc ''pdf_chunking.py'', asc ''missing.pdf'', asc ''chunks.json''] =
     (Completed,
      [msg_loading (asc ''missing.pdf''), msg_error (asc ''File path is not a valid file or url''),
       msg_done 0])"
proof -
  note r = example_missing_reads
  from example_record_docs obtain d d' where d: "accident_doc (\<lambda>v. v) example_record = Inr d"
    "edu_doc (\<lambda>v. v) example_record = Inr d'"
    by blast
  then have l: "load_docs (accident_doc (\<lambda>v. v)) [example_record] = Inr [d]"
    "load_docs (edu_doc (\<lambda>v. v)) [example_record] = Inr [d']"
    by simp_all
  have c: "load example_chunk_environment (asc ''missing.pdf'') =
      Inl (asc ''File path is not a valid file or url'')"
    by (simp add: example_chunk_environment_def asc_def)
  from input_failure_outcomes [of "example_missing ACCIDENT_JSON" _ "\<lambda>v. v"] r(1)
  have 1: "build_safety_rag_db (example_missing ACCIDENT_JSON) (\<lambda>v. v) =
      (Aborted (Raised (asc ''No such file or directory'')), [])"
    by blast
  from input_failure_outcomes [of "example_missing EDUCATION_JSON" _ "\<lambda>v. v" "[example_record]" "[d]"]
    r(2,3) l(1)
  have 2: "build_safety_rag_db (example_missing EDUCATION_JSON) (\<lambda>v. v) =
      (Aborted (Raised (asc ''No such file or directory'')), [info_accident 1])"
    by auto
  from input_failure_outcomes [of "example_missing LAW_PDF" _ "\<lambda>v. v" "[example_record]" "[d]"
      "[example_record]" "[d']"] r(4,5,6) l
  have 3: "build_safety_rag_db (example_missing LAW_PDF) (\<lambda>v. v) =
      (Aborted (Raised (asc ''No such file or directory'')), [info_accident 1, info_education 1])"
    by auto
  from input_failure_outcomes [where env = "example_missing ACCIDENT_JSON" and fmt = "\<lambda>v. v"
      and argv = "[asc ''pdf_chunking.py'', asc ''missing.pdf'', asc ''chunks.json'']"
      and cenv = example_chunk_environment and m = "asc ''File path is not a valid file or url''",
      THEN conjunct2, THEN conjunct2, THEN conjunct2] c
  have 4: "main example_chunk_environment
      [asc ''pdf_chunking.py'', asc ''missing.pdf'', asc ''chunks.json''] =
     (Completed,
      [msg_loading (asc ''missing.pdf''), msg_error (asc ''File path is not a valid file or url''),
       msg_done 0])"
    by auto
  from r(1,3,6) c 1 2 3 4 show ?thesis
    by simp
qed

text \<open>
  C7 as stated fails on the chunking script: for a PDF path that cannot be loaded the run
  completes, after the error line and the line reporting 0 chunks.
\<close>

theorem missing_pdf_completes_counterexample:
  "load example_chunk_environment (asc ''missing.pdf'') =
     Inl (asc ''File path is not a valid file or url'') \<and>
   main example_chunk_environment
     [asc ''pdf_chunking.py'', asc ''missing.pdf'', asc ''chunks.json''] =
     (Completed,
      [msg_loading (asc ''missing.pdf''), msg_error (asc ''File path is not a valid file or url''),
       msg_done 0])"
  by (simp add: main_def Let_def chunk_pdf_def example_chunk_environment_def asc_def)

end
